theory Spec2Isabelle
  imports Complex_Main "HOL-Library.AList"
begin

section \<open>Shared type definitions (types.ts)\<close>

text \<open>
  JavaScript numbers that hold PIDs, megabytes, counters and millisecond timestamps are
  modelled as \<open>int\<close>; the two fractional readings of the process table (CPU seconds,
  rounded to two decimals by the query, and the working set in MB) are \<open>real\<close>.
  Field names that occur in several interfaces carry a short prefix, since record
  fields are global constants.
\<close>

datatype ProcessRole = BackendServer | ModelWorker | Unknown

datatype ProcessHealth = Healthy | Stale | Zombie | KilledProc

record TrackedProcess =
  pid :: int
  parentPid :: "int option"
  role :: ProcessRole
  startedAt :: int
  lastHeartbeat :: int
  commandLine :: string
  cpuPercent :: int
  memoryMb :: real
  gpuMemoryMb :: "int option"
  status :: ProcessHealth

record GpuInfo =
  name :: string
  memoryUsedMb :: int
  memoryTotalMb :: int
  memoryFreeMb :: int
  utilizationPercent :: int
  temperature :: int

record GpuProcess =
  g_pid :: int
  processName :: string
  usedMemoryMb :: int
  isManaged :: bool

datatype CudaAlertType = VramLeak | UnmanagedProcess | OverBudget | Thermal

datatype AlertSeverity = Info | Warning | Critical

record CudaAlert =
  a_type :: CudaAlertType
  severity :: AlertSeverity
  message :: string
  a_pid :: "int option"
  a_timestamp :: int

record CudaSnapshot =
  s_timestamp :: int
  gpu :: "GpuInfo option"
  processes :: "GpuProcess list"
  alerts :: "CudaAlert list"

record CudaHistoryEntry =
  h_timestamp :: int
  h_memoryUsedMb :: int
  h_utilizationPercent :: int
  h_temperature :: int
  processCount :: int

datatype ReaperRuleName = OrphanKill | DuplicateModel | PortSquatter | StaleWorker | VramHog

datatype ReaperOutcome = Killed | Failed | SkippedSafety | DryRun

record ReaperAction =
  timestamp :: int
  targetPid :: int
  rule :: ReaperRuleName
  reason :: string
  outcome :: ReaperOutcome
  freedMemoryMb :: "int option"

record ReaperRules =
  orphan_kill :: bool
  duplicate_model :: bool
  port_squatter :: bool
  stale_worker :: bool
  vram_hog :: bool

record ReaperConfig =
  enabled :: bool
  dryRun :: bool
  maxKillsPerWindow :: int
  windowMs :: int
  rules :: ReaperRules

record FenceConfig =
  maxConcurrentModels :: int
  vramBudgetMb :: int
  promptTimeoutMs :: int
  inferenceStepTimeoutMs :: int
  maxConnectionsPerModel :: int

definition DEFAULT_REAPER_CONFIG :: ReaperConfig where
  "DEFAULT_REAPER_CONFIG =
     \<lparr>enabled = True, dryRun = False, maxKillsPerWindow = 3, windowMs = 300000,
      rules = \<lparr>orphan_kill = True, duplicate_model = True, port_squatter = True,
               stale_worker = True, vram_hog = True\<rparr>\<rparr>"

definition DEFAULT_FENCE_CONFIG :: FenceConfig where
  "DEFAULT_FENCE_CONFIG =
     \<lparr>maxConcurrentModels = 1, vramBudgetMb = 12288, promptTimeoutMs = 300000,
      inferenceStepTimeoutMs = 10000, maxConnectionsPerModel = 1\<rparr>"

definition HISTORY_MAX_ENTRIES :: nat where
  "HISTORY_MAX_ENTRIES = 120"

section \<open>Template literals\<close>

text \<open>
  The reason and message strings are template literals that interpolate numbers; the
  decimal rendering of an integer is \<open>show_int\<close>. Characters outside ASCII are given by
  their UTF-8 bytes.
\<close>

fun show_nat :: "nat \<Rightarrow> string" where
  "show_nat n =
     (if n < 10 then [char_of (48 + n)]
      else show_nat (n div 10) @ [char_of (48 + n mod 10)])"

declare show_nat.simps [simp del]

definition show_int :: "int \<Rightarrow> string" where
  "show_int i = (if i < 0 then CHR ''-'' # show_nat (nat (- i)) else show_nat (nat i))"

definition show_int_opt :: "int option \<Rightarrow> string" where
  "show_int_opt v = (case v of None \<Rightarrow> ''null'' | Some i \<Rightarrow> show_int i)"

definition em_dash :: string where
  "em_dash = [CHR 0xE2, CHR 0x80, CHR 0x94]"

definition degree_sign :: string where
  "degree_sign = [CHR 0xC2, CHR 0xB0]"

section \<open>Zombie Reaper (zombieReaper.ts)\<close>

subsection \<open>State and environment\<close>

record CandidateInfo =
  c_rule :: ReaperRuleName
  c_reason :: string

record Candidate = CandidateInfo +
  firstSeenAt :: int

text \<open>
  The module state: \<open>config\<close>, \<open>actionLog\<close> and the \<open>candidates\<close> map. A JavaScript
  \<open>Map\<close> iterates in insertion order and \<open>set\<close> on a present key keeps its place, which
  is what \<open>AList.update\<close> does on an association list.
\<close>

record ReaperState =
  config :: ReaperConfig
  actionLog :: "ReaperAction list"
  candidates :: "(int \<times> Candidate) list"

text \<open>
  What one call of \<open>evaluate\<close> reads from outside the module. \<open>registry\<close> is the
  set \<open>managedPids\<close> of the process tracker (\<open>isManagedPid\<close> is membership in it), taken as fixed
  during the call. \<open>dateNow\<close> is the clock read by \<open>getKillsInWindow\<close>; \<open>seenNow p\<close> and
  \<open>killNow p\<close> are the clock readings when PID \<open>p\<close> is registered as a candidate and when
  \<open>executeKill\<close> runs on it (each PID is visited once per call). \<open>isPidAlive\<close> and
  \<open>safeKillPid\<close> are the answers of the operating system, \<open>getPortOwner\<close> the owner of
  port 8998.
\<close>

record ReaperEnv =
  registry :: "int set"
  dateNow :: int
  seenNow :: "int \<Rightarrow> int"
  killNow :: "int \<Rightarrow> int"
  isPidAlive :: "int \<Rightarrow> bool"
  safeKillPid :: "int \<Rightarrow> bool"
  getPortOwner :: "int option"

definition isManagedPid :: "int set \<Rightarrow> int \<Rightarrow> bool" where
  "isManagedPid managed p = (p \<in> managed)"

subsection \<open>Configuration\<close>

text \<open>
  A patch is a \<open>Partial<ReaperConfig>\<close>: each top-level field may be absent, and \<open>rules\<close>,
  when present, is a whole record. \<open>updateConfig\<close> spreads the patch over the
  configuration; the second spread, of \<open>patch.rules\<close> over \<open>config.rules\<close>, then acts on
  the rules that the first spread has already taken from the patch.
\<close>

record ReaperConfigPatch =
  p_enabled :: "bool option"
  p_dryRun :: "bool option"
  p_maxKillsPerWindow :: "int option"
  p_windowMs :: "int option"
  p_rules :: "ReaperRules option"

definition or_else :: "'a option \<Rightarrow> 'a \<Rightarrow> 'a" where
  "or_else v d = (case v of None \<Rightarrow> d | Some x \<Rightarrow> x)"

definition updateConfig :: "ReaperConfigPatch \<Rightarrow> ReaperState \<Rightarrow> ReaperState" where
  "updateConfig patch s =
     s\<lparr>config :=
        \<lparr>enabled = or_else (p_enabled patch) (enabled (config s)),
         dryRun = or_else (p_dryRun patch) (dryRun (config s)),
         maxKillsPerWindow = or_else (p_maxKillsPerWindow patch) (maxKillsPerWindow (config s)),
         windowMs = or_else (p_windowMs patch) (windowMs (config s)),
         rules = or_else (p_rules patch) (rules (config s))\<rparr>\<rparr>"

definition getKillsInWindow :: "int \<Rightarrow> ReaperConfig \<Rightarrow> ReaperAction list \<Rightarrow> int" where
  "getKillsInWindow now cfg alog =
     (let cutoff = now - windowMs cfg
      in int (length (filter (\<lambda>a. timestamp a > cutoff \<and> outcome a = Killed) alog)))"

subsection \<open>Kill execution\<close>

text \<open>
  \<open>executeKill\<close> returns the action, the candidate map (it deletes the PID's entry after
  a kill attempt) and the list of PIDs to which a termination signal was sent, which is
  empty on every path except the last.
\<close>

definition executeKill ::
  "ReaperEnv \<Rightarrow> ReaperConfig \<Rightarrow> (int \<times> Candidate) list \<Rightarrow> int \<Rightarrow> ReaperRuleName \<Rightarrow> string \<Rightarrow> int
     \<Rightarrow> ReaperAction \<times> (int \<times> Candidate) list \<times> int list" where
  "executeKill env cfg cands p r rsn currentKillCount =
     (let now = killNow env p in
      if currentKillCount \<ge> maxKillsPerWindow cfg then
        (\<lparr>timestamp = now, targetPid = p, rule = r, reason = rsn,
          outcome = SkippedSafety, freedMemoryMb = None\<rparr>, cands, [])
      else if isManagedPid (registry env) p then
        (\<lparr>timestamp = now, targetPid = p, rule = r,
          reason = rsn @ '' (skipped: PID is in managed registry)'',
          outcome = SkippedSafety, freedMemoryMb = None\<rparr>, cands, [])
      else if dryRun cfg then
        (\<lparr>timestamp = now, targetPid = p, rule = r, reason = rsn,
          outcome = DryRun, freedMemoryMb = None\<rparr>, cands, [])
      else if \<not> isPidAlive env p then
        (\<lparr>timestamp = now, targetPid = p, rule = r, reason = rsn @ '' (already dead)'',
          outcome = SkippedSafety, freedMemoryMb = None\<rparr>, cands, [])
      else
        (let killed = safeKillPid env p in
         (\<lparr>timestamp = now, targetPid = p, rule = r, reason = rsn,
           outcome = (if killed then Killed else Failed), freedMemoryMb = None\<rparr>,
          AList.delete p cands, [p])))"

subsection \<open>The five rules\<close>

type_synonym current_candidates = "(int \<times> CandidateInfo) list"

text \<open>The reason texts of the five rules, as the template literals build them.\<close>

definition orphan_kill_reason :: "int \<Rightarrow> int option \<Rightarrow> int option \<Rightarrow> string" where
  "orphan_kill_reason p parent gpuMem =
     ''PID '' @ show_int p @ '' is orphaned (parent '' @ show_int_opt parent
       @ '' dead), using '' @ show_int (or_else gpuMem 0) @ '' MB VRAM.''"

definition duplicate_model_reason :: "int \<Rightarrow> int \<Rightarrow> nat \<Rightarrow> string" where
  "duplicate_model_reason p mem n =
     ''PID '' @ show_int p @ '' using '' @ show_int mem @ '' MB VRAM '' @ em_dash
       @ '' duplicate model detected ('' @ show_int (int n) @ '' processes >4GB).''"

definition port_squatter_reason :: "int \<Rightarrow> string" where
  "port_squatter_reason p =
     ''PID '' @ show_int p @ '' holding port 8998 but is not the managed backend.''"

definition stale_worker_reason :: "int \<Rightarrow> int option \<Rightarrow> string" where
  "stale_worker_reason p gpuMem =
     ''PID '' @ show_int p @ '' has no CPU activity for multiple cycles and owns ''
       @ show_int (or_else gpuMem 0) @ '' MB VRAM.''"

definition vram_hog_reason :: "int \<Rightarrow> int \<Rightarrow> string" where
  "vram_hog_reason p mem =
     ''Unmanaged PID '' @ show_int p @ '' using '' @ show_int mem
       @ '' MB VRAM for unknown purpose.''"

definition rule_orphan_kill ::
  "int set \<Rightarrow> TrackedProcess list \<Rightarrow> current_candidates \<Rightarrow> current_candidates" where
  "rule_orphan_kill managed procs =
     fold (\<lambda>proc cc.
        if status proc = Zombie \<and> \<not> isManagedPid managed (pid proc) then
          AList.update (pid proc)
            \<lparr>c_rule = OrphanKill,
             c_reason = orphan_kill_reason (pid proc) (parentPid proc) (gpuMemoryMb proc)\<rparr> cc
        else cc) procs"

definition rule_duplicate_model :: "CudaSnapshot \<Rightarrow> current_candidates \<Rightarrow> current_candidates" where
  "rule_duplicate_model cudaSnapshot cc =
     (let gpuHogs = filter (\<lambda>p. usedMemoryMb p > 4000) (processes cudaSnapshot) in
      if length gpuHogs > 1 then
        fold (\<lambda>hog cc'.
           if \<not> isManaged hog then
             AList.update (g_pid hog)
               \<lparr>c_rule = DuplicateModel,
                c_reason = duplicate_model_reason (g_pid hog) (usedMemoryMb hog) (length gpuHogs)\<rparr>
               cc'
           else cc') gpuHogs cc
      else cc)"

definition rule_port_squatter ::
  "int set \<Rightarrow> int option \<Rightarrow> int option \<Rightarrow> current_candidates \<Rightarrow> current_candidates" where
  "rule_port_squatter managed owner managedBackendPid cc =
     (case owner of
        None \<Rightarrow> cc
      | Some portOwner \<Rightarrow>
          if Some portOwner \<noteq> managedBackendPid \<and> \<not> isManagedPid managed portOwner then
            AList.update portOwner
              \<lparr>c_rule = PortSquatter, c_reason = port_squatter_reason portOwner\<rparr> cc
          else cc)"

definition rule_stale_worker ::
  "int set \<Rightarrow> TrackedProcess list \<Rightarrow> current_candidates \<Rightarrow> current_candidates" where
  "rule_stale_worker managed procs =
     fold (\<lambda>proc cc.
        if status proc = Stale \<and> \<not> isManagedPid managed (pid proc) then
          AList.update (pid proc)
            \<lparr>c_rule = StaleWorker,
             c_reason = stale_worker_reason (pid proc) (gpuMemoryMb proc)\<rparr> cc
        else cc) procs"

definition rule_vram_hog ::
  "TrackedProcess list \<Rightarrow> CudaSnapshot \<Rightarrow> current_candidates \<Rightarrow> current_candidates" where
  "rule_vram_hog procs cudaSnapshot =
     fold (\<lambda>gpuProc cc.
        if \<not> isManaged gpuProc \<and> usedMemoryMb gpuProc > 2000 then
          (case find (\<lambda>p. pid p = g_pid gpuProc) procs of
             None \<Rightarrow> cc
           | Some tracked \<Rightarrow>
               if role tracked = Unknown then
                 AList.update (g_pid gpuProc)
                   \<lparr>c_rule = VramHog,
                    c_reason = vram_hog_reason (g_pid gpuProc) (usedMemoryMb gpuProc)\<rparr> cc
               else cc)
        else cc) (processes cudaSnapshot)"

text \<open>
  The map \<open>currentCandidates\<close> of one call: the enabled rules applied in order to the
  empty map. A later rule that flags the same PID replaces the entry in place.
\<close>

definition currentCandidates ::
  "ReaperEnv \<Rightarrow> ReaperConfig \<Rightarrow> TrackedProcess list \<Rightarrow> CudaSnapshot \<Rightarrow> int option
     \<Rightarrow> current_candidates" where
  "currentCandidates env cfg procs cudaSnapshot managedBackendPid =
     (let cc1 = (if orphan_kill (rules cfg)
                 then rule_orphan_kill (registry env) procs [] else []);
          cc2 = (if duplicate_model (rules cfg)
                 then rule_duplicate_model cudaSnapshot cc1 else cc1);
          cc3 = (if port_squatter (rules cfg)
                 then rule_port_squatter (registry env) (getPortOwner env) managedBackendPid cc2
                 else cc2);
          cc4 = (if stale_worker (rules cfg)
                 then rule_stale_worker (registry env) procs cc3 else cc3);
          cc5 = (if vram_hog (rules cfg)
                 then rule_vram_hog procs cudaSnapshot cc4 else cc4)
      in cc5)"

subsection \<open>Two-cycle confirmation and the evaluation cycle\<close>

text \<open>
  The loop over \<open>currentCandidates\<close>. It carries the candidate map, the actions of this
  call and the PIDs signalled so far. An entry seen for the first time, or seen before
  under another rule, is (re)registered; an entry seen before under the same rule goes
  to \<open>executeKill\<close> with the kills of the window plus the kills of this call.
\<close>

fun confirm ::
  "ReaperEnv \<Rightarrow> ReaperConfig \<Rightarrow> int \<Rightarrow> current_candidates
     \<Rightarrow> (int \<times> Candidate) list \<times> ReaperAction list \<times> int list
     \<Rightarrow> (int \<times> Candidate) list \<times> ReaperAction list \<times> int list" where
  "confirm env cfg killsInWindow [] acc = acc"
| "confirm env cfg killsInWindow ((p, info) # rest) (cands, actions, signals) =
     (case map_of cands p of
        None \<Rightarrow>
          confirm env cfg killsInWindow rest
            (AList.update p \<lparr>c_rule = c_rule info, c_reason = c_reason info,
                              firstSeenAt = seenNow env p\<rparr> cands, actions, signals)
      | Some prev \<Rightarrow>
          if c_rule prev = c_rule info then
            (case executeKill env cfg cands p (c_rule info) (c_reason info)
                    (killsInWindow + int (length (filter (\<lambda>a. outcome a = Killed) actions))) of
               (action, cands', sent) \<Rightarrow>
                 confirm env cfg killsInWindow rest (cands', actions @ [action], signals @ sent))
          else
            confirm env cfg killsInWindow rest
              (AList.update p \<lparr>c_rule = c_rule info, c_reason = c_reason info,
                                firstSeenAt = seenNow env p\<rparr> cands, actions, signals))"

definition prune :: "current_candidates \<Rightarrow> (int \<times> Candidate) list \<Rightarrow> (int \<times> Candidate) list" where
  "prune cc cands = filter (\<lambda>(p, c). p \<in> fst ` set cc) cands"

text \<open>The loop \<open>while (actionLog.length > 100) actionLog.shift()\<close>.\<close>

fun trimLog :: "ReaperAction list \<Rightarrow> ReaperAction list" where
  "trimLog alog = (if length alog > 100 then trimLog (tl alog) else alog)"

declare trimLog.simps [simp del]

text \<open>
  One evaluation cycle: the actions returned, the new module state and the PIDs that
  were sent a termination signal.
\<close>

definition evaluate ::
  "ReaperEnv \<Rightarrow> TrackedProcess list \<Rightarrow> CudaSnapshot \<Rightarrow> int option \<Rightarrow> ReaperState
     \<Rightarrow> ReaperAction list \<times> ReaperState \<times> int list" where
  "evaluate env procs cudaSnapshot managedBackendPid s =
     (if \<not> enabled (config s) then ([], s, [])
      else
        (let cc = currentCandidates env (config s) procs cudaSnapshot managedBackendPid;
             killsInWindow = getKillsInWindow (dateNow env) (config s) (actionLog s)
         in case confirm env (config s) killsInWindow cc (candidates s, [], []) of
              (cands, actions, signals) \<Rightarrow>
                (actions,
                 s\<lparr>candidates := prune cc cands,
                   actionLog := trimLog (actionLog s @ actions)\<rparr>,
                 signals)))"

section \<open>Process Tracker (processTracker.ts)\<close>

record RawProcessInfo =
  raw_pid :: int
  raw_parentPid :: int
  raw_name :: string
  raw_commandLine :: string
  cpuSeconds :: real
  workingSetMb :: real

record CpuSample =
  cs_cpuSeconds :: real
  cs_timestamp :: int

text \<open>
  The module state: the registry \<open>managedPids\<close>, the last CPU sample per PID and the
  counter of consecutive anomalous cycles per PID.
\<close>

record TrackerState =
  managedPids :: "int set"
  lastCpuSnapshot :: "int \<rightharpoonup> CpuSample"
  staleCycles :: "int \<rightharpoonup> int"

definition registerManagedPid :: "int \<Rightarrow> TrackerState \<Rightarrow> TrackerState" where
  "registerManagedPid p t =
     t\<lparr>managedPids := insert p (managedPids t), staleCycles := (staleCycles t)(p := None)\<rparr>"

definition unregisterManagedPid :: "int \<Rightarrow> TrackerState \<Rightarrow> TrackerState" where
  "unregisterManagedPid p t =
     t\<lparr>managedPids := managedPids t - {p},
       lastCpuSnapshot := (lastCpuSnapshot t)(p := None),
       staleCycles := (staleCycles t)(p := None)\<rparr>"

text \<open>\<open>toLowerCase\<close> on the ASCII letters and \<open>String.prototype.includes\<close>.\<close>

definition to_lower_char :: "char \<Rightarrow> char" where
  "to_lower_char c =
     (let n = (of_char c :: nat) in if 65 \<le> n \<and> n \<le> 90 then char_of (n + 32) else c)"

fun starts_with :: "string \<Rightarrow> string \<Rightarrow> bool" where
  "starts_with [] ys = True"
| "starts_with (x # xs) [] = False"
| "starts_with (x # xs) (y # ys) = (x = y \<and> starts_with xs ys)"

fun str_includes :: "string \<Rightarrow> string \<Rightarrow> bool" where
  "str_includes needle [] = (needle = [])"
| "str_includes needle (c # cs) = (starts_with needle (c # cs) \<or> str_includes needle cs)"

definition classifyRole :: "int set \<Rightarrow> RawProcessInfo \<Rightarrow> ProcessRole" where
  "classifyRole managed raw =
     (let cmd = map to_lower_char (raw_commandLine raw) in
      if str_includes ''moshi.server'' cmd \<or> str_includes (''moshi'' @ [CHR 0x5C] @ ''server'') cmd then
        (if raw_pid raw \<in> managed then BackendServer else Unknown)
      else if raw_parentPid raw \<in> managed then ModelWorker
      else if raw_pid raw \<in> managed then BackendServer
      else Unknown)"

text \<open>
  \<open>determineHealth\<close> reads and writes \<open>staleCycles\<close>; it returns the status and the new
  counter map. \<open>staleCheck\<close> is its second \<open>if\<close> with the fall-through that deletes the
  counter and answers \<open>healthy\<close>.
\<close>

definition staleCheck ::
  "RawProcessInfo \<Rightarrow> ProcessRole \<Rightarrow> int \<Rightarrow> int option \<Rightarrow> (int \<rightharpoonup> int)
     \<Rightarrow> ProcessHealth \<times> (int \<rightharpoonup> int)" where
  "staleCheck raw rl cpuPct gpuMemMb sc =
     (if rl = Unknown \<and> (case gpuMemMb of None \<Rightarrow> False | Some g \<Rightarrow> g > 500) \<and> cpuPct \<le> 1 then
        (let cycles = or_else (sc (raw_pid raw)) 0 + 1;
             sc' = sc(raw_pid raw \<mapsto> cycles)
         in if cycles \<ge> 3 then (Stale, sc') else (Healthy, sc'(raw_pid raw := None)))
      else (Healthy, sc(raw_pid raw := None)))"

definition determineHealth ::
  "int set \<Rightarrow> int set \<Rightarrow> RawProcessInfo \<Rightarrow> ProcessRole \<Rightarrow> int \<Rightarrow> int option \<Rightarrow> (int \<rightharpoonup> int)
     \<Rightarrow> ProcessHealth \<times> (int \<rightharpoonup> int)" where
  "determineHealth managed alivePids raw rl cpuPct gpuMemMb sc =
     (if raw_parentPid raw > 1 \<and> raw_parentPid raw \<notin> alivePids \<and> raw_pid raw \<notin> managed then
        (let cycles = or_else (sc (raw_pid raw)) 0 + 1;
             sc' = sc(raw_pid raw \<mapsto> cycles)
         in if cycles \<ge> 2 then (Zombie, sc') else staleCheck raw rl cpuPct gpuMemMb sc')
      else staleCheck raw rl cpuPct gpuMemMb sc)"

text \<open>
  \<open>Math.round\<close> rounds to the nearest integer, a half upwards. The CPU delta is computed
  here over the reals, where the code computes in IEEE doubles: the two agree wherever
  the quotient and the product are exact (as for the readings used below), and can
  differ by one at a half-way point that the double arithmetic misses (readings 0.15
  and 0.5 taken 10 s apart give 3 in the code and 4 here).
\<close>

definition math_round :: "real \<Rightarrow> int" where
  "math_round x = \<lfloor>x + 1 / 2\<rfloor>"

text \<open>The CPU activity delta of \<open>scanProcesses\<close>, from the previous sample of the PID.\<close>

definition cpuDelta :: "CpuSample option \<Rightarrow> real \<Rightarrow> int \<Rightarrow> int" where
  "cpuDelta prev cpuSecs now =
     (case prev of
        None \<Rightarrow> 0
      | Some pv \<Rightarrow>
          (let dtSec = real_of_int (now - cs_timestamp pv) / 1000 in
           if dtSec > 0 then min 100 (math_round (((cpuSecs - cs_cpuSeconds pv) / dtSec) * 100))
           else 0))"

text \<open>
  The loop of \<open>scanProcesses\<close> over the raw rows. It carries the two maps and the result
  list. \<open>gpuPidMemoryMap\<close> is the PID-to-VRAM map passed by the caller.
\<close>

fun scanLoop ::
  "int set \<Rightarrow> int set \<Rightarrow> int \<Rightarrow> (int \<rightharpoonup> int) \<Rightarrow> RawProcessInfo list
     \<Rightarrow> (int \<rightharpoonup> CpuSample) \<times> (int \<rightharpoonup> int) \<times> TrackedProcess list
     \<Rightarrow> (int \<rightharpoonup> CpuSample) \<times> (int \<rightharpoonup> int) \<times> TrackedProcess list" where
  "scanLoop managed alivePids now gpuPidMemoryMap [] acc = acc"
| "scanLoop managed alivePids now gpuPidMemoryMap (raw # rest) (lastCpu, sc, result) =
     (let rl = classifyRole managed raw;
          gpuMem = gpuPidMemoryMap (raw_pid raw);
          cpuPct = cpuDelta (lastCpu (raw_pid raw)) (cpuSeconds raw) now;
          lastCpu' = lastCpu(raw_pid raw \<mapsto> \<lparr>cs_cpuSeconds = cpuSeconds raw, cs_timestamp = now\<rparr>)
      in case determineHealth managed alivePids raw rl cpuPct gpuMem sc of
           (st, sc') \<Rightarrow>
             scanLoop managed alivePids now gpuPidMemoryMap rest
               (lastCpu', sc',
                result @ [\<lparr>pid = raw_pid raw, parentPid = Some (raw_parentPid raw), role = rl,
                            startedAt = now, lastHeartbeat = now,
                            commandLine = raw_commandLine raw, cpuPercent = cpuPct,
                            memoryMb = workingSetMb raw, gpuMemoryMb = gpuMem, status = st\<rparr>]))"

text \<open>
  \<open>scanProcesses\<close>: \<open>rawProcesses\<close> is what \<open>listPythonProcesses\<close> returned and \<open>now\<close> the
  clock. After the loop, the entries of PIDs that are no longer in the scan are pruned:
  the loop over the keys of \<open>lastCpuSnapshot\<close> deletes them from both maps.
\<close>

definition scanProcesses ::
  "RawProcessInfo list \<Rightarrow> int \<Rightarrow> (int \<rightharpoonup> int) \<Rightarrow> TrackerState
     \<Rightarrow> TrackedProcess list \<times> TrackerState" where
  "scanProcesses rawProcesses now gpuPidMemoryMap t =
     (let alivePids = set (map raw_pid rawProcesses) in
      case scanLoop (managedPids t) alivePids now gpuPidMemoryMap rawProcesses
             (lastCpuSnapshot t, staleCycles t, []) of
        (lastCpu, sc, result) \<Rightarrow>
          (result,
           t\<lparr>lastCpuSnapshot := (\<lambda>p. if p \<in> alivePids then lastCpu p else None),
             staleCycles := (\<lambda>p. if p \<in> dom lastCpu \<and> p \<notin> alivePids then None else sc p)\<rparr>))"

section \<open>CUDA Monitor (cudaMonitor.ts)\<close>

record CudaState =
  history :: "CudaHistoryEntry list"
  previousSnapshot :: "CudaSnapshot option"
  m_vramBudgetMb :: int

text \<open>
  \<open>queryGpuProcesses\<close> after the CSV parsing: each row \<open>(pid, name, memory)\<close> is stamped
  with its membership in the registry, and rows without a positive PID are dropped.
\<close>

definition queryGpuProcesses :: "int set \<Rightarrow> (int \<times> string \<times> int) list \<Rightarrow> GpuProcess list" where
  "queryGpuProcesses managed rows =
     filter (\<lambda>p. g_pid p > 0)
       (map (\<lambda>(p, nm, mem). \<lparr>g_pid = p, processName = nm, usedMemoryMb = mem,
                               isManaged = isManagedPid managed p\<rparr>) rows)"

definition overBudgetAlerts :: "int \<Rightarrow> GpuInfo \<Rightarrow> int \<Rightarrow> CudaAlert list" where
  "overBudgetAlerts budget g now =
     (if memoryUsedMb g > budget then
        [\<lparr>a_type = OverBudget, severity = Warning,
          message = ''VRAM usage '' @ show_int (memoryUsedMb g) @ '' MB exceeds budget of ''
            @ show_int budget @ '' MB.'',
          a_pid = None, a_timestamp = now\<rparr>]
      else [])"

definition thermalAlerts :: "GpuInfo \<Rightarrow> int \<Rightarrow> CudaAlert list" where
  "thermalAlerts g now =
     (if temperature g \<ge> 90 then
        [\<lparr>a_type = Thermal, severity = Critical,
          message = ''GPU temperature '' @ show_int (temperature g) @ degree_sign
            @ ''C is critically high.'',
          a_pid = None, a_timestamp = now\<rparr>]
      else if temperature g \<ge> 80 then
        [\<lparr>a_type = Thermal, severity = Warning,
          message = ''GPU temperature '' @ show_int (temperature g) @ degree_sign
            @ ''C is elevated.'',
          a_pid = None, a_timestamp = now\<rparr>]
      else [])"

definition unmanagedAlerts :: "GpuProcess list \<Rightarrow> int \<Rightarrow> CudaAlert list" where
  "unmanagedAlerts procs now =
     map (\<lambda>proc.
        \<lparr>a_type = UnmanagedProcess, severity = Warning,
         message = ''Unmanaged process PID '' @ show_int (g_pid proc) @ '' (''
           @ processName proc @ '') using '' @ show_int (usedMemoryMb proc) @ '' MB VRAM.'',
         a_pid = Some (g_pid proc), a_timestamp = now\<rparr>)
       (filter (\<lambda>proc. \<not> isManaged proc \<and> usedMemoryMb proc > 100) procs)"

definition vramLeakAlerts ::
  "CudaSnapshot option \<Rightarrow> GpuInfo \<Rightarrow> GpuProcess list \<Rightarrow> int \<Rightarrow> CudaAlert list" where
  "vramLeakAlerts prevSnap g procs now =
     (case prevSnap of
        None \<Rightarrow> []
      | Some prevS \<Rightarrow>
          (case gpu prevS of
             None \<Rightarrow> []
           | Some prevGpu \<Rightarrow>
               (let prevUsed = memoryUsedMb prevGpu;
                    delta = memoryUsedMb g - prevUsed;
                    managedProcesses = filter (\<lambda>p. isManaged p) procs
                in if delta > 500 \<and> length managedProcesses = 0 then
                     [\<lparr>a_type = VramLeak, severity = Warning,
                       message = ''VRAM grew by '' @ show_int delta
                         @ '' MB with no managed processes on GPU. Possible leak.'',
                       a_pid = None, a_timestamp = now\<rparr>]
                   else [])))"

definition generateAlerts ::
  "int \<Rightarrow> CudaSnapshot option \<Rightarrow> GpuInfo option \<Rightarrow> GpuProcess list \<Rightarrow> int \<Rightarrow> CudaAlert list" where
  "generateAlerts budget prevSnap g_opt procs now =
     (case g_opt of
        None \<Rightarrow> []
      | Some g \<Rightarrow>
          overBudgetAlerts budget g now @ thermalAlerts g now @ unmanagedAlerts procs now
            @ vramLeakAlerts prevSnap g procs now)"

text \<open>The loop \<open>while (history.length > HISTORY_MAX_ENTRIES) history.shift()\<close>.\<close>

fun trimHistory :: "CudaHistoryEntry list \<Rightarrow> CudaHistoryEntry list" where
  "trimHistory h = (if length h > HISTORY_MAX_ENTRIES then trimHistory (tl h) else h)"

declare trimHistory.simps [simp del]

text \<open>
  \<open>pollCuda\<close>: \<open>g_opt\<close> is the answer of \<open>queryGpuInfo\<close> (absent when the tool failed)
  and \<open>rows\<close> the parsed process rows.
\<close>

definition pollCuda ::
  "int \<Rightarrow> int set \<Rightarrow> GpuInfo option \<Rightarrow> (int \<times> string \<times> int) list \<Rightarrow> CudaState
     \<Rightarrow> CudaSnapshot \<times> CudaState" where
  "pollCuda now managed g_opt rows st =
     (let procs = queryGpuProcesses managed rows;
          alerts' = generateAlerts (m_vramBudgetMb st) (previousSnapshot st) g_opt procs now;
          snapshot = \<lparr>s_timestamp = now, gpu = g_opt, processes = procs, alerts = alerts'\<rparr>;
          history' = (case g_opt of
                        None \<Rightarrow> history st
                      | Some g \<Rightarrow>
                          trimHistory (history st @
                            [\<lparr>h_timestamp = now, h_memoryUsedMb = memoryUsedMb g,
                              h_utilizationPercent = utilizationPercent g,
                              h_temperature = temperature g,
                              processCount = int (length procs)\<rparr>]))
      in (snapshot, st\<lparr>history := history', previousSnapshot := Some snapshot\<rparr>))"

section \<open>Inference Fence (inferenceFence.ts)\<close>

record FenceState =
  f_config :: FenceConfig
  promptStartedAt :: "int option"
  locked :: bool

record LaunchDecision =
  allowed :: bool
  l_reason :: "string option"

definition resetFence :: "FenceState \<Rightarrow> FenceState" where
  "resetFence f = f\<lparr>promptStartedAt := None, locked := False\<rparr>"

definition acquireLock :: "FenceState \<Rightarrow> bool \<times> FenceState" where
  "acquireLock f = (if locked f then (False, f) else (True, f\<lparr>locked := True\<rparr>))"

definition releaseLock :: "FenceState \<Rightarrow> FenceState" where
  "releaseLock f = f\<lparr>locked := False\<rparr>"

definition canLaunchModel :: "FenceState \<Rightarrow> CudaSnapshot \<Rightarrow> LaunchDecision" where
  "canLaunchModel f cudaSnapshot =
     (let activeModels = int (length (filter (\<lambda>p. usedMemoryMb p > 4000) (processes cudaSnapshot))) in
      if activeModels \<ge> maxConcurrentModels (f_config f) then
        \<lparr>allowed = False,
         l_reason = Some (''Already '' @ show_int activeModels @ ''/''
           @ show_int (maxConcurrentModels (f_config f))
           @ '' model(s) loaded. Kill existing before launching another.'')\<rparr>
      else if locked f then
        \<lparr>allowed = False,
         l_reason = Some (''Fence is locked '' @ em_dash @ '' another operation is in progress.'')\<rparr>
      else \<lparr>allowed = True, l_reason = None\<rparr>)"

section \<open>Derived notions used in the statements\<close>

text \<open>
  A PID is flagged under rule \<open>r\<close> in a call when \<open>currentCandidates\<close> holds it with that
  rule. An entry of \<open>currentCandidates\<close> is confirmed when the candidate map of the
  previous call holds its PID under the same rule.
\<close>

definition flaggedUnder :: "current_candidates \<Rightarrow> int \<Rightarrow> ReaperRuleName \<Rightarrow> bool" where
  "flaggedUnder cc p r = (case map_of cc p of None \<Rightarrow> False | Some info \<Rightarrow> c_rule info = r)"

definition heldUnder :: "(int \<times> Candidate) list \<Rightarrow> int \<Rightarrow> ReaperRuleName \<Rightarrow> bool" where
  "heldUnder cands p r = (case map_of cands p of None \<Rightarrow> False | Some c \<Rightarrow> c_rule c = r)"

definition confirmed :: "(int \<times> Candidate) list \<Rightarrow> int \<times> CandidateInfo \<Rightarrow> bool" where
  "confirmed cands e = heldUnder cands (fst e) (c_rule (snd e))"

text \<open>The three components of the result of one evaluation cycle.\<close>

definition actionsOf ::
  "ReaperEnv \<Rightarrow> TrackedProcess list \<Rightarrow> CudaSnapshot \<Rightarrow> int option \<Rightarrow> ReaperState
     \<Rightarrow> ReaperAction list" where
  "actionsOf env procs cudaSnapshot managedBackendPid s =
     fst (evaluate env procs cudaSnapshot managedBackendPid s)"

definition stateAfter ::
  "ReaperEnv \<Rightarrow> TrackedProcess list \<Rightarrow> CudaSnapshot \<Rightarrow> int option \<Rightarrow> ReaperState
     \<Rightarrow> ReaperState" where
  "stateAfter env procs cudaSnapshot managedBackendPid s =
     fst (snd (evaluate env procs cudaSnapshot managedBackendPid s))"

definition signalsOf ::
  "ReaperEnv \<Rightarrow> TrackedProcess list \<Rightarrow> CudaSnapshot \<Rightarrow> int option \<Rightarrow> ReaperState
     \<Rightarrow> int list" where
  "signalsOf env procs cudaSnapshot managedBackendPid s =
     snd (snd (evaluate env procs cudaSnapshot managedBackendPid s))"

definition flagged ::
  "ReaperEnv \<Rightarrow> ReaperConfig \<Rightarrow> TrackedProcess list \<Rightarrow> CudaSnapshot \<Rightarrow> int option
     \<Rightarrow> int \<Rightarrow> ReaperRuleName \<Rightarrow> bool" where
  "flagged env cfg procs cudaSnapshot managedBackendPid p r =
     flaggedUnder (currentCandidates env cfg procs cudaSnapshot managedBackendPid) p r"

text \<open>The used memory of the previous snapshot, when it has GPU data.\<close>

definition previousUsedMb :: "CudaState \<Rightarrow> int option" where
  "previousUsedMb st =
     (case previousSnapshot st of
        None \<Rightarrow> None
      | Some ps \<Rightarrow> (case gpu ps of None \<Rightarrow> None | Some g \<Rightarrow> Some (memoryUsedMb g)))"

text \<open>A run of consecutive evaluation cycles: all actions, the final state, all signals.\<close>

fun run_cycles ::
  "(ReaperEnv \<times> TrackedProcess list \<times> CudaSnapshot \<times> int option) list \<Rightarrow> ReaperState
     \<Rightarrow> ReaperAction list \<times> ReaperState \<times> int list" where
  "run_cycles [] s = ([], s, [])"
| "run_cycles ((env, procs, cudaSnapshot, managedBackendPid) # rest) s =
     (case evaluate env procs cudaSnapshot managedBackendPid s of
        (actions, s', signals) \<Rightarrow>
          (case run_cycles rest s' of
             (actions', s'', signals') \<Rightarrow> (actions @ actions', s'', signals @ signals')))"

section \<open>Scenarios\<close>

text \<open>
  Concrete inputs. \<open>cycle_env\<close> is an environment whose clock reads \<open>t\<close> throughout the
  call, in which every PID is alive and every termination signal is delivered, and
  port 8998 has no owner.
\<close>

definition cycle_env :: "int set \<Rightarrow> int \<Rightarrow> ReaperEnv" where
  "cycle_env managed t =
     \<lparr>registry = managed, dateNow = t, seenNow = (\<lambda>p. t), killNow = (\<lambda>p. t),
      isPidAlive = (\<lambda>p. True), safeKillPid = (\<lambda>p. True), getPortOwner = None\<rparr>"

definition initial_reaper :: ReaperState where
  "initial_reaper = \<lparr>config = DEFAULT_REAPER_CONFIG, actionLog = [], candidates = []\<rparr>"

definition no_patch :: ReaperConfigPatch where
  "no_patch = \<lparr>p_enabled = None, p_dryRun = None, p_maxKillsPerWindow = None,
               p_windowMs = None, p_rules = None\<rparr>"

definition gpu_proc :: "int \<Rightarrow> int \<Rightarrow> bool \<Rightarrow> GpuProcess" where
  "gpu_proc p mem m = \<lparr>g_pid = p, processName = ''python.exe'', usedMemoryMb = mem, isManaged = m\<rparr>"

definition cuda_snapshot :: "int \<Rightarrow> GpuProcess list \<Rightarrow> CudaSnapshot" where
  "cuda_snapshot t procs = \<lparr>s_timestamp = t, gpu = None, processes = procs, alerts = []\<rparr>"

subsection \<open>The duplicate-model scenario\<close>

text \<open>
  The scenario of the specification: PID 500, unmanaged, holds 5000 MB and PID 600,
  managed, holds 6000 MB on the same GPU. \<open>same_cycle t\<close> is a call on this snapshot pair
  at time \<open>t\<close>, \<open>gone_cycle t\<close> the same call in an environment in which no PID is alive
  any more.
\<close>

definition duplicate_snapshot :: CudaSnapshot where
  "duplicate_snapshot = cuda_snapshot 0 [gpu_proc 500 5000 False, gpu_proc 600 6000 True]"

definition same_cycle ::
  "int \<Rightarrow> ReaperEnv \<times> TrackedProcess list \<times> CudaSnapshot \<times> int option" where
  "same_cycle t = (cycle_env {600} t, [], duplicate_snapshot, None)"

definition gone_cycle ::
  "int \<Rightarrow> ReaperEnv \<times> TrackedProcess list \<times> CudaSnapshot \<times> int option" where
  "gone_cycle t =
     ((cycle_env {600} t)\<lparr>isPidAlive := (\<lambda>p. False)\<rparr>, [], duplicate_snapshot, None)"

text \<open>
  The state after one call, in which PID 500 has been seen once, and the same state
  switched to dry-run mode by \<open>updateConfig({dryRun: true})\<close>.
\<close>

definition seen_state :: ReaperState where
  "seen_state = stateAfter (cycle_env {600} 1000) [] duplicate_snapshot None initial_reaper"

definition rehearsal_state :: ReaperState where
  "rehearsal_state = updateConfig (no_patch\<lparr>p_dryRun := Some True\<rparr>) seen_state"

text \<open>
  The Reaper switched off after the first call and on again after the second:
  \<open>paused_state\<close> is the state in which the second call runs, \<open>resumed_state\<close> the state
  in which the third runs. During the second call only the managed PID 600 is on the
  GPU.
\<close>

definition lone_snapshot :: CudaSnapshot where
  "lone_snapshot = cuda_snapshot 0 [gpu_proc 600 6000 True]"

definition paused_state :: ReaperState where
  "paused_state = updateConfig (no_patch\<lparr>p_enabled := Some False\<rparr>) seen_state"

definition resumed_state :: ReaperState where
  "resumed_state =
     updateConfig (no_patch\<lparr>p_enabled := Some True\<rparr>)
       (stateAfter (cycle_env {600} 11000) [] lone_snapshot None paused_state)"

text \<open>
  A snapshot taken before PID 600 was registered, so that its \<open>isManaged\<close> flag is
  still false, and the state after one call on it with an empty registry.
\<close>

definition early_snapshot :: CudaSnapshot where
  "early_snapshot = cuda_snapshot 0 [gpu_proc 500 5000 False, gpu_proc 600 6000 False]"

definition early_state :: ReaperState where
  "early_state = stateAfter (cycle_env {} 1000) [] early_snapshot None initial_reaper"

subsection \<open>Seven unrecognised GPU processes\<close>

text \<open>
  A run with one cycle every 10 seconds, in which the unmanaged PIDs \<open>pids\<close> are
  unrecognised Python processes, as \<open>scanProcesses\<close> reports them, that hold 2500 MB of
  VRAM each; \<open>hog_cycle k pids\<close> is its cycle \<open>k\<close>.
\<close>

definition tracked_unknown :: "int \<Rightarrow> TrackedProcess" where
  "tracked_unknown p =
     \<lparr>pid = p, parentPid = Some 4, role = Unknown, startedAt = 0, lastHeartbeat = 0,
      commandLine = ''python train.py'', cpuPercent = 50, memoryMb = 900,
      gpuMemoryMb = Some 2500, status = Healthy\<rparr>"

definition hog_env :: "nat \<Rightarrow> ReaperEnv" where
  "hog_env k = cycle_env {} (1000000 + 10000 * int k)"

definition hog_procs :: "int list \<Rightarrow> TrackedProcess list" where
  "hog_procs pids = map tracked_unknown pids"

definition hog_snapshot :: "int list \<Rightarrow> CudaSnapshot" where
  "hog_snapshot pids = cuda_snapshot 0 (map (\<lambda>p. gpu_proc p 2500 False) pids)"

definition hog_cycle ::
  "nat \<Rightarrow> int list \<Rightarrow> ReaperEnv \<times> TrackedProcess list \<times> CudaSnapshot \<times> int option" where
  "hog_cycle k pids = (hog_env k, hog_procs pids, hog_snapshot pids, None)"

text \<open>
  Seven such processes under the default configuration: all seven are seen in cycles 0
  and 1, the four that survive cycle 1 are seen in every cycle up to cycle 26.
\<close>

definition breaker_scenario ::
  "(ReaperEnv \<times> TrackedProcess list \<times> CudaSnapshot \<times> int option) list" where
  "breaker_scenario =
     [hog_cycle 0 [701, 702, 703, 704, 705, 706, 707],
      hog_cycle 1 [701, 702, 703, 704, 705, 706, 707]]
     @ map (\<lambda>k. hog_cycle k [704, 705, 706, 707]) [2..<26]
     @ [hog_cycle 26 [704, 705, 706, 707]]"

text \<open>The actions of a list that report a delivered termination signal.\<close>

definition killedActions :: "ReaperAction list \<Rightarrow> ReaperAction list" where
  "killedActions acts = filter (\<lambda>a. outcome a = Killed) acts"


subsection \<open>Process tracker, CUDA monitor and fence\<close>

text \<open>
  PID 700 is an unmanaged Python process whose parent, PID 650, is not in the scan.
  \<open>reused_row\<close> is a younger process to which the operating system gave the same PID,
  with less CPU time on its account.
\<close>

definition initial_tracker :: TrackerState where
  "initial_tracker = \<lparr>managedPids = {}, lastCpuSnapshot = Map.empty, staleCycles = Map.empty\<rparr>"

definition orphan_row :: RawProcessInfo where
  "orphan_row =
     \<lparr>raw_pid = 700, raw_parentPid = 650, raw_name = ''python.exe'',
      raw_commandLine = ''python worker.py'', cpuSeconds = 12.5, workingSetMb = 300\<rparr>"

definition reused_row :: RawProcessInfo where
  "reused_row =
     \<lparr>raw_pid = 700, raw_parentPid = 4, raw_name = ''python.exe'',
      raw_commandLine = ''python other.py'', cpuSeconds = 0.25, workingSetMb = 80\<rparr>"

text \<open>A first poll that reads 4000 MB used; the scenario polls again and reads 4800 MB.\<close>

definition gpu_info :: "int \<Rightarrow> GpuInfo" where
  "gpu_info used =
     \<lparr>name = ''GPU'', memoryUsedMb = used, memoryTotalMb = 16384,
      memoryFreeMb = 16384 - used, utilizationPercent = 10, temperature = 50\<rparr>"

definition initial_cuda :: CudaState where
  "initial_cuda = \<lparr>history = [], previousSnapshot = None, m_vramBudgetMb = 14000\<rparr>"

definition polled_cuda :: CudaState where
  "polled_cuda = snd (pollCuda 1000 {} (Some (gpu_info 4000)) [] initial_cuda)"

text \<open>The fence in its default configuration, unlocked.\<close>

definition initial_fence :: FenceState where
  "initial_fence = \<lparr>f_config = DEFAULT_FENCE_CONFIG, promptStartedAt = None, locked = False\<rparr>"

section \<open>Properties of the Zombie Reaper\<close>

subsection \<open>Kill execution\<close>

text \<open>The trimming loop keeps the last 100 entries.\<close>

lemma trimLog_drop: "trimLog alog = drop (length alog - 100) alog"
proof (induction alog rule: trimLog.induct)
  case (1 alog)
  show ?case
  proof (cases "length alog > 100")
    case True
    then obtain x xs where xs: "alog = x # xs" by (cases alog) auto
    have "trimLog alog = trimLog (tl alog)" using True by (subst trimLog.simps) simp
    also have "\<dots> = drop (length (tl alog) - 100) (tl alog)" using 1 True by simp
    also have "\<dots> = drop (length alog - 100) alog"
    proof -
      have "length alog - 100 = Suc (length (tl alog) - 100)" using True xs by simp
      then show ?thesis using xs by simp
    qed
    finally show ?thesis .
  next
    case False
    then show ?thesis by (subst trimLog.simps) simp
  qed
qed

text \<open>What \<open>executeKill\<close> returns, branch by branch.\<close>

lemma executeKill_targetPid: "targetPid (fst (executeKill env cfg cands p r rsn n)) = p"
  by (simp add: executeKill_def Let_def)

lemma executeKill_rule: "rule (fst (executeKill env cfg cands p r rsn n)) = r"
  by (simp add: executeKill_def Let_def)

lemma executeKill_managed:
  "p \<in> registry env \<Longrightarrow>
     outcome (fst (executeKill env cfg cands p r rsn n)) = SkippedSafety
     \<and> snd (snd (executeKill env cfg cands p r rsn n)) = []"
  by (simp add: executeKill_def Let_def isManagedPid_def)

lemma executeKill_signals:
  "q \<in> set (snd (snd (executeKill env cfg cands p r rsn n))) \<Longrightarrow> q = p \<and> p \<notin> registry env"
  by (simp add: executeKill_def Let_def isManagedPid_def split: if_splits)

lemma executeKill_cands:
  "fst (snd (executeKill env cfg cands p r rsn n)) = cands
   \<or> fst (snd (executeKill env cfg cands p r rsn n)) = AList.delete p cands"
  by (simp add: executeKill_def Let_def)

lemma executeKill_attempt:
  "outcome (fst (executeKill env cfg cands p r rsn n)) = Killed
   \<or> outcome (fst (executeKill env cfg cands p r rsn n)) = Failed
   \<Longrightarrow> fst (snd (executeKill env cfg cands p r rsn n)) = AList.delete p cands"
  by (simp add: executeKill_def Let_def split: if_splits)

lemma executeKill_breaker:
  "n \<ge> maxKillsPerWindow cfg \<Longrightarrow>
     outcome (fst (executeKill env cfg cands p r rsn n)) = SkippedSafety"
  by (simp add: executeKill_def Let_def)


lemma executeKill_other:
  "q \<noteq> p \<Longrightarrow> map_of (fst (snd (executeKill env cfg cands p r rsn n))) q = map_of cands q"
  using executeKill_cands[of env cfg cands p r rsn n] by (auto simp: delete_conv')

subsection \<open>The confirmation loop\<close>

text \<open>One step of the confirmation loop, in both of its shapes.\<close>

lemma confirm_register:
  "\<not> confirmed cands (p, info) \<Longrightarrow>
     confirm env cfg k ((p, info) # rest) (cands, acts, sigs) =
       confirm env cfg k rest
         (AList.update p \<lparr>c_rule = c_rule info, c_reason = c_reason info,
                           firstSeenAt = seenNow env p\<rparr> cands, acts, sigs)"
  by (simp add: confirmed_def heldUnder_def split: option.splits)

lemma confirm_execute:
  "confirmed cands (p, info) \<Longrightarrow>
     confirm env cfg k ((p, info) # rest) (cands, acts, sigs) =
       confirm env cfg k rest
         (fst (snd (executeKill env cfg cands p (c_rule info) (c_reason info)
                      (k + int (length (filter (\<lambda>a. outcome a = Killed) acts))))),
          acts @ [fst (executeKill env cfg cands p (c_rule info) (c_reason info)
                      (k + int (length (filter (\<lambda>a. outcome a = Killed) acts))))],
          sigs @ snd (snd (executeKill env cfg cands p (c_rule info) (c_reason info)
                      (k + int (length (filter (\<lambda>a. outcome a = Killed) acts))))))"
  by (simp add: confirmed_def heldUnder_def split: option.splits prod.splits)

lemma confirmed_cong:
  "map_of cands1 (fst e) = map_of cands2 (fst e) \<Longrightarrow> confirmed cands1 e = confirmed cands2 e"
  by (simp add: confirmed_def heldUnder_def)

text \<open>The loop touches the candidate entries of the PIDs it visits only.\<close>

lemma confirm_other:
  "p \<notin> fst ` set cc \<Longrightarrow>
     map_of (fst (confirm env cfg k cc (cands, acts, sigs))) p = map_of cands p"
proof (induction cc arbitrary: cands acts sigs)
  case Nil
  then show ?case by simp
next
  case (Cons x cc)
  obtain q info where x: "x = (q, info)" by (cases x)
  from Cons.prems x have qp: "q \<noteq> p" and rest: "p \<notin> fst ` set cc" by auto
  show ?case
  proof (cases "confirmed cands (q, info)")
    case True
    show ?thesis
      unfolding x confirm_execute[OF True]
      using Cons.IH[OF rest] executeKill_other[of p q] qp by simp
  next
    case False
    show ?thesis
      unfolding x confirm_register[OF False]
      using Cons.IH[OF rest] qp by (simp add: update_conv')
  qed
qed

text \<open>
  Since each PID occurs once in \<open>currentCandidates\<close>, whether an entry is confirmed can
  be read off the candidate map as it was before the loop; the loop emits one action per
  confirmed entry, in order, with the PID and the rule of the entry.
\<close>

lemma filter_confirmed_rest:
  assumes "p \<notin> fst ` set rest" and "\<And>q. q \<noteq> p \<Longrightarrow> map_of cands1 q = map_of cands q"
  shows "filter (confirmed cands1) rest = filter (confirmed cands) rest"
proof (rule filter_cong[OF refl])
  fix e assume "e \<in> set rest"
  with assms(1) have "fst e \<noteq> p" by auto
  then show "confirmed cands1 e = confirmed cands e"
    using assms(2) by (intro confirmed_cong) simp
qed

lemma confirm_actions:
  "distinct (map fst cc) \<Longrightarrow>
     \<exists>new. fst (snd (confirm env cfg k cc (cands, acts, sigs))) = acts @ new
       \<and> map (\<lambda>a. (targetPid a, rule a)) new =
           map (\<lambda>e. (fst e, c_rule (snd e))) (filter (confirmed cands) cc)"
proof (induction cc arbitrary: cands acts sigs)
  case Nil
  then show ?case by simp
next
  case (Cons x cc)
  obtain q info where x: "x = (q, info)" by (cases x)
  from Cons.prems x have rest: "q \<notin> fst ` set cc" and d: "distinct (map fst cc)" by auto
  show ?case
  proof (cases "confirmed cands (q, info)")
    case True
    define n where "n = k + int (length (filter (\<lambda>a. outcome a = Killed) acts))"
    define ek where "ek = executeKill env cfg cands q (c_rule info) (c_reason info) n"
    have f: "filter (confirmed (fst (snd ek))) cc = filter (confirmed cands) cc"
      by (rule filter_confirmed_rest[OF rest]) (simp add: ek_def executeKill_other)
    obtain new where new: "fst (snd (confirm env cfg k cc (fst (snd ek), acts @ [fst ek], sigs @ snd (snd ek))))
                   = (acts @ [fst ek]) @ new"
       "map (\<lambda>a. (targetPid a, rule a)) new = map (\<lambda>e. (fst e, c_rule (snd e))) (filter (confirmed (fst (snd ek))) cc)"
      using Cons.IH[OF d] by blast
    have "fst (snd (confirm env cfg k (x # cc) (cands, acts, sigs))) = acts @ (fst ek # new)"
      unfolding x confirm_execute[OF True] using new(1) by (simp add: ek_def n_def)
    moreover have "map (\<lambda>a. (targetPid a, rule a)) (fst ek # new) =
           map (\<lambda>e. (fst e, c_rule (snd e))) (filter (confirmed cands) (x # cc))"
      using True new(2) f by (simp add: x ek_def executeKill_targetPid executeKill_rule)
    ultimately show ?thesis by blast
  next
    case False
    define c1 where "c1 = AList.update q \<lparr>c_rule = c_rule info, c_reason = c_reason info,
                           firstSeenAt = seenNow env q\<rparr> cands"
    have f: "filter (confirmed c1) cc = filter (confirmed cands) cc"
      by (rule filter_confirmed_rest[OF rest]) (simp add: c1_def update_conv')
    obtain new where new: "fst (snd (confirm env cfg k cc (c1, acts, sigs))) = acts @ new"
       "map (\<lambda>a. (targetPid a, rule a)) new = map (\<lambda>e. (fst e, c_rule (snd e))) (filter (confirmed c1) cc)"
      using Cons.IH[OF d] by blast
    have "fst (snd (confirm env cfg k (x # cc) (cands, acts, sigs))) = acts @ new"
      unfolding x confirm_register[OF False] using new(1) by (simp add: c1_def)
    moreover have "map (\<lambda>a. (targetPid a, rule a)) new =
           map (\<lambda>e. (fst e, c_rule (snd e))) (filter (confirmed cands) (x # cc))"
      using False new(2) f by (simp add: x)
    ultimately show ?thesis by blast
  qed
qed

text \<open>
  After the loop, a visited PID is held in the candidate map only under the rule of its
  entry in \<open>currentCandidates\<close>, and not at all after a kill attempt on it.
\<close>

lemma flaggedUnder_Cons_same: "flaggedUnder ((p, info) # cc) p r = (c_rule info = r)"
  by (simp add: flaggedUnder_def)

lemma flaggedUnder_Cons_other: "q \<noteq> p \<Longrightarrow> flaggedUnder ((q, info) # cc) p r = flaggedUnder cc p r"
  by (simp add: flaggedUnder_def)

lemma confirm_held_flagged:
  "distinct (map fst cc) \<Longrightarrow> p \<in> fst ` set cc \<Longrightarrow>
     heldUnder (fst (confirm env cfg k cc (cands, acts, sigs))) p r \<Longrightarrow> flaggedUnder cc p r"
proof (induction cc arbitrary: cands acts sigs)
  case Nil
  then show ?case by simp
next
  case (Cons x cc)
  obtain q info where x: "x = (q, info)" by (cases x)
  from Cons.prems x have rest: "q \<notin> fst ` set cc" and d: "distinct (map fst cc)" by auto
  show ?case
  proof (cases "p = q")
    case True
    show ?thesis
    proof (cases "confirmed cands (q, info)")
      case c: True
      define ek where "ek = executeKill env cfg cands q (c_rule info) (c_reason info)
                      (k + int (length (filter (\<lambda>a. outcome a = Killed) acts)))"
      have "map_of (fst (confirm env cfg k (x # cc) (cands, acts, sigs))) q = map_of (fst (snd ek)) q"
        unfolding x confirm_execute[OF c] ek_def[symmetric] by (rule confirm_other[OF rest])
      moreover have "map_of (fst (snd ek)) q = map_of cands q \<or> map_of (fst (snd ek)) q = None"
        unfolding ek_def
        using executeKill_cands[of env cfg cands q "c_rule info" "c_reason info"
                "k + int (length (filter (\<lambda>a. outcome a = Killed) acts))"]
        by (auto simp: delete_conv')
      ultimately have "heldUnder cands q r"
        using Cons.prems(3) True by (auto simp: heldUnder_def)
      with c show ?thesis
        by (auto simp: x True flaggedUnder_Cons_same confirmed_def heldUnder_def split: option.splits)
    next
      case c: False
      have "map_of (fst (confirm env cfg k (x # cc) (cands, acts, sigs))) q =
              Some \<lparr>c_rule = c_rule info, c_reason = c_reason info, firstSeenAt = seenNow env q\<rparr>"
        unfolding x confirm_register[OF c] by (simp add: confirm_other[OF rest] update_conv')
      then show ?thesis
        using Cons.prems(3) True by (simp add: x heldUnder_def flaggedUnder_Cons_same)
    qed
  next
    case False
    with Cons.prems(2) x have pin: "p \<in> fst ` set cc" by auto
    have "flaggedUnder cc p r"
    proof (cases "confirmed cands (q, info)")
      case c: True
      show ?thesis
        using Cons.prems(3) unfolding x confirm_execute[OF c] by (rule Cons.IH[OF d pin])
    next
      case c: False
      show ?thesis
        using Cons.prems(3) unfolding x confirm_register[OF c] by (rule Cons.IH[OF d pin])
    qed
    then show ?thesis using False by (simp add: x flaggedUnder_Cons_other)
  qed
qed

lemma confirm_attempt_deleted:
  assumes "distinct (map fst cc)"
    and "\<forall>a \<in> set acts. outcome a = Killed \<or> outcome a = Failed \<longrightarrow>
           map_of cands (targetPid a) = None \<and> targetPid a \<notin> fst ` set cc"
    and "a \<in> set (fst (snd (confirm env cfg k cc (cands, acts, sigs))))"
    and "outcome a = Killed \<or> outcome a = Failed"
  shows "map_of (fst (confirm env cfg k cc (cands, acts, sigs))) (targetPid a) = None"
  using assms
proof (induction cc arbitrary: cands acts sigs)
  case Nil
  then show ?case by auto
next
  case (Cons x cc)
  obtain q info where x: "x = (q, info)" by (cases x)
  from Cons.prems(1) x have rest: "q \<notin> fst ` set cc" and d: "distinct (map fst cc)" by auto
  show ?case
  proof (cases "confirmed cands (q, info)")
    case c: True
    define ek where "ek = executeKill env cfg cands q (c_rule info) (c_reason info)
                      (k + int (length (filter (\<lambda>a. outcome a = Killed) acts)))"
    have inv: "\<forall>b \<in> set (acts @ [fst ek]). outcome b = Killed \<or> outcome b = Failed \<longrightarrow>
           map_of (fst (snd ek)) (targetPid b) = None \<and> targetPid b \<notin> fst ` set cc"
    proof
      fix b assume b: "b \<in> set (acts @ [fst ek])"
      show "outcome b = Killed \<or> outcome b = Failed \<longrightarrow>
           map_of (fst (snd ek)) (targetPid b) = None \<and> targetPid b \<notin> fst ` set cc"
      proof
        assume kf: "outcome b = Killed \<or> outcome b = Failed"
        show "map_of (fst (snd ek)) (targetPid b) = None \<and> targetPid b \<notin> fst ` set cc"
        proof (cases "b \<in> set acts")
          case True
          with Cons.prems(2) kf
          have "map_of cands (targetPid b) = None \<and> targetPid b \<notin> fst ` set (x # cc)"
            by blast
          then have "map_of cands (targetPid b) = None" "targetPid b \<noteq> q"
              "targetPid b \<notin> fst ` set cc" by (auto simp: x)
          then show ?thesis by (simp add: ek_def executeKill_other)
        next
          case False
          with b have be: "b = fst ek" by simp
          then have "fst (snd ek) = AList.delete q cands"
            using kf executeKill_attempt[of env cfg cands q] by (simp add: ek_def)
          then show ?thesis using rest be by (simp add: ek_def executeKill_targetPid delete_conv')
        qed
      qed
    qed
    show ?thesis
      using Cons.prems(3) unfolding x confirm_execute[OF c] ek_def[symmetric]
      by (intro Cons.IH[OF d inv _ Cons.prems(4)])
  next
    case c: False
    define c1 where "c1 = AList.update q \<lparr>c_rule = c_rule info, c_reason = c_reason info,
                           firstSeenAt = seenNow env q\<rparr> cands"
    have inv: "\<forall>b \<in> set acts. outcome b = Killed \<or> outcome b = Failed \<longrightarrow>
           map_of c1 (targetPid b) = None \<and> targetPid b \<notin> fst ` set cc"
    proof (intro ballI impI)
      fix b assume "b \<in> set acts" "outcome b = Killed \<or> outcome b = Failed"
      with Cons.prems(2)
      have "map_of cands (targetPid b) = None \<and> targetPid b \<notin> fst ` set (x # cc)"
        by blast
      then show "map_of c1 (targetPid b) = None \<and> targetPid b \<notin> fst ` set cc"
        by (auto simp: x c1_def update_conv')
    qed
    show ?thesis
      using Cons.prems(3) unfolding x confirm_register[OF c] c1_def[symmetric]
      by (intro Cons.IH[OF d inv _ Cons.prems(4)])
  qed
qed

subsection \<open>Pruning and the keys of \<open>currentCandidates\<close>\<close>

lemma map_of_filter_key:
  "map_of (filter (\<lambda>e. P (fst e)) xs) k = (if P k then map_of xs k else None)"
  by (induction xs) auto

lemma map_of_prune: "map_of (prune cc cands) p = (if p \<in> fst ` set cc then map_of cands p else None)"
  unfolding prune_def case_prod_beta by (rule map_of_filter_key)

lemma distinct_fold_update:
  assumes "\<And>x cc. distinct (map fst cc) \<Longrightarrow> distinct (map fst (f x cc))"
  shows "distinct (map fst cc) \<Longrightarrow> distinct (map fst (fold f xs cc))"
  by (induction xs arbitrary: cc) (simp_all add: assms)

lemma distinct_rule_orphan_kill:
  "distinct (map fst cc) \<Longrightarrow> distinct (map fst (rule_orphan_kill managed procs cc))"
  unfolding rule_orphan_kill_def by (rule distinct_fold_update) (simp add: distinct_update)

lemma distinct_rule_duplicate_model:
  assumes "distinct (map fst cc)"
  shows "distinct (map fst (rule_duplicate_model snap cc))"
proof -
  have h: "distinct (map fst (fold (\<lambda>hog cc'.
           if \<not> isManaged hog then
             AList.update (g_pid hog)
               \<lparr>c_rule = DuplicateModel,
                c_reason = duplicate_model_reason (g_pid hog) (usedMemoryMb hog) n\<rparr>
               cc'
           else cc') hogs cc))" for hogs n
    using assms by (rule distinct_fold_update[rotated]) (simp add: distinct_update)
  show ?thesis
    using assms
      h[of "length (filter (\<lambda>p. usedMemoryMb p > 4000) (processes snap))"
           "filter (\<lambda>p. usedMemoryMb p > 4000) (processes snap)"]
    by (simp add: rule_duplicate_model_def Let_def)
qed

lemma distinct_rule_port_squatter:
  "distinct (map fst cc) \<Longrightarrow> distinct (map fst (rule_port_squatter managed owner mb cc))"
  unfolding rule_port_squatter_def by (simp add: distinct_update split: option.splits)

lemma distinct_rule_stale_worker:
  "distinct (map fst cc) \<Longrightarrow> distinct (map fst (rule_stale_worker managed procs cc))"
  unfolding rule_stale_worker_def by (rule distinct_fold_update) (simp add: distinct_update)

lemma distinct_rule_vram_hog:
  "distinct (map fst cc) \<Longrightarrow> distinct (map fst (rule_vram_hog procs snap cc))"
  unfolding rule_vram_hog_def
  by (rule distinct_fold_update) (simp add: distinct_update split: option.splits)

lemma distinct_currentCandidates:
  "distinct (map fst (currentCandidates env cfg procs snap mb))"
  unfolding currentCandidates_def Let_def
  by (simp add: distinct_rule_vram_hog distinct_rule_stale_worker distinct_rule_port_squatter
        distinct_rule_duplicate_model distinct_rule_orphan_kill)

subsection \<open>One evaluation cycle\<close>

text \<open>A property of every result of \<open>executeKill\<close> holds of every action and signal of a call.\<close>

lemma confirm_invariant:
  assumes "\<forall>a \<in> set acts. P a"
    and "\<forall>q \<in> set sigs. Q q"
    and "\<And>cs p r rsn n. P (fst (executeKill env cfg cs p r rsn n))"
    and "\<And>cs p r rsn n q. q \<in> set (snd (snd (executeKill env cfg cs p r rsn n))) \<Longrightarrow> Q q"
  shows "(\<forall>a \<in> set (fst (snd (confirm env cfg k cc (cands, acts, sigs)))). P a)
       \<and> (\<forall>q \<in> set (snd (snd (confirm env cfg k cc (cands, acts, sigs)))). Q q)"
  using assms(1,2)
proof (induction cc arbitrary: cands acts sigs)
  case Nil
  then show ?case by simp
next
  case (Cons x cc)
  obtain p info where x: "x = (p, info)" by (cases x)
  show ?case
  proof (cases "confirmed cands (p, info)")
    case False
    show ?thesis unfolding x confirm_register[OF False] by (rule Cons.IH[OF Cons.prems])
  next
    case True
    show ?thesis unfolding x confirm_execute[OF True]
      by (rule Cons.IH) (use Cons.prems assms(3,4) in auto)
  qed
qed

lemma evaluate_enabled:
  "enabled (config s) \<Longrightarrow>
     evaluate env procs snap mb s =
       (fst (snd (confirm env (config s)
                    (getKillsInWindow (dateNow env) (config s) (actionLog s))
                    (currentCandidates env (config s) procs snap mb) (candidates s, [], []))),
        s\<lparr>candidates := prune (currentCandidates env (config s) procs snap mb)
               (fst (confirm env (config s)
                    (getKillsInWindow (dateNow env) (config s) (actionLog s))
                    (currentCandidates env (config s) procs snap mb) (candidates s, [], []))),
          actionLog := trimLog (actionLog s @
               fst (snd (confirm env (config s)
                    (getKillsInWindow (dateNow env) (config s) (actionLog s))
                    (currentCandidates env (config s) procs snap mb) (candidates s, [], []))))\<rparr>,
        snd (snd (confirm env (config s)
                    (getKillsInWindow (dateNow env) (config s) (actionLog s))
                    (currentCandidates env (config s) procs snap mb) (candidates s, [], []))))"
  by (simp add: evaluate_def Let_def split: prod.splits)

lemma evaluate_off: "\<not> enabled (config s) \<Longrightarrow> evaluate env procs snap mb s = ([], s, [])"
  by (simp add: evaluate_def)

lemma evaluate_invariant:
  assumes "\<And>cs p r rsn n. P (fst (executeKill env (config s) cs p r rsn n))"
    and "\<And>cs p r rsn n q. q \<in> set (snd (snd (executeKill env (config s) cs p r rsn n))) \<Longrightarrow> Q q"
  shows "(\<forall>a \<in> set (actionsOf env procs snap mb s). P a)
       \<and> (\<forall>q \<in> set (signalsOf env procs snap mb s). Q q)"
proof (cases "enabled (config s)")
  case False
  then show ?thesis by (simp add: actionsOf_def signalsOf_def evaluate_off)
next
  case True
  show ?thesis
    unfolding actionsOf_def signalsOf_def evaluate_enabled[OF True] fst_conv snd_conv
    by (rule confirm_invariant) (use assms in auto)
qed

text \<open>The facts about the loop, restated for a call of \<open>evaluate\<close>.\<close>

lemma actions_confirmed:
  assumes "enabled (config s)"
  shows "map (\<lambda>a. (targetPid a, rule a)) (actionsOf env procs snap mb s) =
           map (\<lambda>e. (fst e, c_rule (snd e)))
             (filter (confirmed (candidates s)) (currentCandidates env (config s) procs snap mb))"
  using confirm_actions[OF distinct_currentCandidates, where env=env and cfg="config s"
          and k="getKillsInWindow (dateNow env) (config s) (actionLog s)"
          and cands="candidates s" and acts="[]" and sigs="[]"]
  by (simp add: actionsOf_def evaluate_enabled[OF assms])

lemma action_flagged_held:
  assumes "a \<in> set (actionsOf env procs snap mb s)"
  shows "flagged env (config s) procs snap mb (targetPid a) (rule a)
       \<and> heldUnder (candidates s) (targetPid a) (rule a)"
proof -
  have en: "enabled (config s)"
    using assms by (cases "enabled (config s)") (simp_all add: actionsOf_def evaluate_off)
  let ?cc = "currentCandidates env (config s) procs snap mb"
  have "(targetPid a, rule a) \<in> set (map (\<lambda>a. (targetPid a, rule a)) (actionsOf env procs snap mb s))"
    using assms by (intro image_eqI[where x=a, THEN subst[OF set_map[symmetric], of "\<lambda>S. _ \<in> S"]]) auto
  then obtain e where e: "e \<in> set ?cc" "confirmed (candidates s) e"
      "targetPid a = fst e" "rule a = c_rule (snd e)"
    unfolding actions_confirmed[OF en] by auto
  have "map_of ?cc (fst e) = Some (snd e)"
    using e(1) map_of_is_SomeI[OF distinct_currentCandidates, of "fst e" "snd e"]
    by simp
  then show ?thesis
    using e by (simp add: flagged_def flaggedUnder_def confirmed_def)
qed

lemma held_after_flagged:
  assumes "enabled (config s)"
    and "heldUnder (candidates (stateAfter env procs snap mb s)) p r"
  shows "flagged env (config s) procs snap mb p r"
proof -
  let ?cc = "currentCandidates env (config s) procs snap mb"
  let ?c = "fst (confirm env (config s) (getKillsInWindow (dateNow env) (config s) (actionLog s))
                    ?cc (candidates s, [], []))"
  have h: "heldUnder (prune ?cc ?c) p r"
    using assms(2) by (simp add: stateAfter_def evaluate_enabled[OF assms(1)])
  then have pin: "p \<in> fst ` set ?cc" and "heldUnder ?c p r"
    by (auto simp: heldUnder_def map_of_prune split: if_splits)
  then show ?thesis
    unfolding flagged_def
    by (intro confirm_held_flagged[OF distinct_currentCandidates pin])
qed

lemma not_flagged_absent:
  assumes "enabled (config s)" and "\<forall>r. \<not> flagged env (config s) procs snap mb p r"
  shows "map_of (candidates (stateAfter env procs snap mb s)) p = None"
proof -
  have "map_of (currentCandidates env (config s) procs snap mb) p = None"
  proof (cases "map_of (currentCandidates env (config s) procs snap mb) p")
    case None
    then show ?thesis .
  next
    case (Some info)
    then have "flagged env (config s) procs snap mb p (c_rule info)"
      by (simp add: flagged_def flaggedUnder_def)
    with assms(2) show ?thesis by blast
  qed
  then have "p \<notin> fst ` set (currentCandidates env (config s) procs snap mb)"
    by (simp add: map_of_eq_None_iff)
  then show ?thesis
    by (simp add: stateAfter_def evaluate_enabled[OF assms(1)] map_of_prune)
qed

lemma attempt_absent:
  assumes "a \<in> set (actionsOf env procs snap mb s)"
    and "outcome a = Killed \<or> outcome a = Failed"
  shows "map_of (candidates (stateAfter env procs snap mb s)) (targetPid a) = None"
proof -
  have en: "enabled (config s)"
    using assms(1) by (cases "enabled (config s)") (simp_all add: actionsOf_def evaluate_off)
  let ?cc = "currentCandidates env (config s) procs snap mb"
  let ?k = "getKillsInWindow (dateNow env) (config s) (actionLog s)"
  have "map_of (fst (confirm env (config s) ?k ?cc (candidates s, [], []))) (targetPid a) = None"
    by (rule confirm_attempt_deleted[OF distinct_currentCandidates _ _ assms(2)])
       (use assms(1) in \<open>simp_all add: actionsOf_def evaluate_enabled[OF en]\<close>)
  then show ?thesis
    by (simp add: stateAfter_def evaluate_enabled[OF en] map_of_prune)
qed

subsection \<open>Evaluation of the scenarios\<close>

text \<open>The equations that evaluate a call on a concrete input, and the scenarios.\<close>

lemmas reaper_eval =
  evaluate_def actionsOf_def stateAfter_def signalsOf_def currentCandidates_def
  rule_orphan_kill_def rule_duplicate_model_def rule_port_squatter_def rule_stale_worker_def
  rule_vram_hog_def getKillsInWindow_def executeKill_def isManagedPid_def prune_def
  trimLog_drop updateConfig_def or_else_def Let_def

lemmas scenario_defs =
  cycle_env_def initial_reaper_def DEFAULT_REAPER_CONFIG_def gpu_proc_def cuda_snapshot_def
  duplicate_snapshot_def tracked_unknown_def hog_env_def hog_procs_def hog_snapshot_def
  hog_cycle_def no_patch_def lone_snapshot_def early_snapshot_def same_cycle_def
  gone_cycle_def

lemma seen_state_eq:
  "seen_state =
     \<lparr>config = DEFAULT_REAPER_CONFIG, actionLog = [],
      candidates =
        [(500, \<lparr>c_rule = DuplicateModel, c_reason = duplicate_model_reason 500 5000 2,
                 firstSeenAt = 1000\<rparr>)]\<rparr>"
  by (simp add: seen_state_def reaper_eval scenario_defs numeral_2_eq_2)

lemma rehearsal_state_eq:
  "rehearsal_state =
     \<lparr>config = DEFAULT_REAPER_CONFIG\<lparr>dryRun := True\<rparr>, actionLog = [],
      candidates =
        [(500, \<lparr>c_rule = DuplicateModel, c_reason = duplicate_model_reason 500 5000 2,
                 firstSeenAt = 1000\<rparr>)]\<rparr>"
  by (simp add: rehearsal_state_def seen_state_eq reaper_eval scenario_defs)

lemma early_state_eq:
  "early_state =
     \<lparr>config = DEFAULT_REAPER_CONFIG, actionLog = [],
      candidates =
        [(500, \<lparr>c_rule = DuplicateModel, c_reason = duplicate_model_reason 500 5000 2,
                 firstSeenAt = 1000\<rparr>),
         (600, \<lparr>c_rule = DuplicateModel, c_reason = duplicate_model_reason 600 6000 2,
                 firstSeenAt = 1000\<rparr>)]\<rparr>"
  by (simp add: early_state_def reaper_eval scenario_defs numeral_2_eq_2)

lemma paused_state_eq:
  "paused_state =
     \<lparr>config = DEFAULT_REAPER_CONFIG\<lparr>enabled := False\<rparr>, actionLog = [],
      candidates =
        [(500, \<lparr>c_rule = DuplicateModel, c_reason = duplicate_model_reason 500 5000 2,
                 firstSeenAt = 1000\<rparr>)]\<rparr>"
  by (simp add: paused_state_def seen_state_eq updateConfig_def or_else_def no_patch_def)

lemma resumed_state_eq:
  "resumed_state =
     \<lparr>config = DEFAULT_REAPER_CONFIG, actionLog = [],
      candidates =
        [(500, \<lparr>c_rule = DuplicateModel, c_reason = duplicate_model_reason 500 5000 2,
                 firstSeenAt = 1000\<rparr>)]\<rparr>"
  by (simp add: resumed_state_def paused_state_eq reaper_eval scenario_defs)

text \<open>Two auxiliary facts: a PID is flagged under one rule only, and the loop in dry-run mode.\<close>

lemma flaggedUnder_functional: "flaggedUnder cc p r \<Longrightarrow> flaggedUnder cc p r' \<Longrightarrow> r = r'"
  by (auto simp: flaggedUnder_def split: option.splits)


subsection \<open>The claims about the Reaper\<close>

text \<open>
  Claim C1. For a PID \<open>p\<close> that is in the registry, \<open>executeKill\<close> answers
  \<open>skipped-safety\<close> and sends no signal, whatever the rule, the kill count and the
  configuration; hence in every evaluation cycle, from every state, each action that
  targets \<open>p\<close> is \<open>skipped-safety\<close> (never \<open>killed\<close>) and \<open>p\<close> is not among the PIDs
  that were sent a termination signal.
\<close>

theorem managed_never_killed:
  assumes "p \<in> registry env"
  shows "outcome (fst (executeKill env cfg cands p r rsn n)) = SkippedSafety
       \<and> snd (snd (executeKill env cfg cands p r rsn n)) = []
       \<and> (\<forall>a \<in> set (actionsOf env procs snap mb s).
            targetPid a = p \<longrightarrow> outcome a = SkippedSafety)
       \<and> p \<notin> set (signalsOf env procs snap mb s)"
proof -
  have 1: "targetPid (fst (executeKill env (config s) cs q r rsn n)) = p
              \<longrightarrow> outcome (fst (executeKill env (config s) cs q r rsn n)) = SkippedSafety"
    for cs q r rsn n
    using assms executeKill_managed[of q env] by (auto simp: executeKill_targetPid)
  have 2: "x \<in> set (snd (snd (executeKill env (config s) cs q r rsn n))) \<Longrightarrow> x \<noteq> p"
    for cs q r rsn n x
    using assms executeKill_signals by blast
  have "(\<forall>a \<in> set (actionsOf env procs snap mb s). targetPid a = p \<longrightarrow> outcome a = SkippedSafety)
       \<and> (\<forall>q \<in> set (signalsOf env procs snap mb s). q \<noteq> p)"
    by (rule evaluate_invariant) (use 1 2 in auto)
  then show ?thesis using executeKill_managed[OF assms] by auto
qed

text \<open>
  Witness for C1: PID 600 was registered after the snapshot was taken, so the
  duplicate-model rule still flags it; when it is confirmed together with PID 500, PID
  500 is killed and PID 600 is skipped.
\<close>

theorem managed_never_killed_witness:
  "600 \<in> registry (cycle_env {600} 11000)
   \<and> outcome (fst (executeKill (cycle_env {600} 11000) DEFAULT_REAPER_CONFIG
        (candidates early_state) 600 DuplicateModel (duplicate_model_reason 600 6000 2) 0))
       = SkippedSafety
   \<and> map targetPid (actionsOf (cycle_env {600} 11000) [] early_snapshot None early_state)
       = [500, 600]
   \<and> map outcome (actionsOf (cycle_env {600} 11000) [] early_snapshot None early_state)
       = [Killed, SkippedSafety]
   \<and> 600 \<notin> set (signalsOf (cycle_env {600} 11000) [] early_snapshot None early_state)"
proof -
  have h: "600 \<in> registry (cycle_env {600} 11000)" by (simp add: cycle_env_def)
  have t: "map targetPid (actionsOf (cycle_env {600} 11000) [] early_snapshot None early_state)
       = [500, 600]
   \<and> map outcome (actionsOf (cycle_env {600} 11000) [] early_snapshot None early_state)
       = [Killed, SkippedSafety]"
    by (simp add: early_state_eq reaper_eval scenario_defs)
  show ?thesis
    using h t managed_never_killed[OF h, of DEFAULT_REAPER_CONFIG "candidates early_state"
        DuplicateModel "duplicate_model_reason 600 6000 2" 0 "[]" early_snapshot None early_state]
    by simp
qed

text \<open>
  Claim C2 does not hold of the code. PID 500 is flagged under \<open>duplicate-model\<close> in a
  first call. The second call runs with \<open>enabled = false\<close>, on a snapshot in which no rule
  would flag anything: it returns before the rules and before the pruning loop, so it
  emits no action and does not drop PID 500 from the candidate map. In the third call,
  again enabled, PID 500 is flagged once more and is killed at once, on a single fresh
  sighting, although it was not flagged in the call before. The comments in the code
  (\<open>Candidates seen in previous cycle\<close>, \<open>candidate was seen in previous cycle too\<close>)
  and the pruning that every enabled call runs say that it should not be.
\<close>

theorem stale_candidate_survives_pause:
  "flagged (cycle_env {600} 1000) (config initial_reaper) [] duplicate_snapshot None 500 DuplicateModel
   \<and> \<not> enabled (config paused_state)
   \<and> currentCandidates (cycle_env {600} 11000) (config paused_state) [] lone_snapshot None = []
   \<and> actionsOf (cycle_env {600} 11000) [] lone_snapshot None paused_state = []
   \<and> heldUnder (candidates (stateAfter (cycle_env {600} 11000) [] lone_snapshot None paused_state))
        500 DuplicateModel
   \<and> map targetPid (actionsOf (cycle_env {600} 21000) [] duplicate_snapshot None resumed_state) = [500]
   \<and> map outcome (actionsOf (cycle_env {600} 21000) [] duplicate_snapshot None resumed_state) = [Killed]"
  by (simp add: paused_state_eq resumed_state_eq flagged_def flaggedUnder_def heldUnder_def
        reaper_eval scenario_defs)

text \<open>
  The kill after the pause does not depend on the clock: whenever the third call runs,
  it kills PID 500.
\<close>

lemma pause_kill_any_time:
  "map targetPid (actionsOf (cycle_env {600} t) [] duplicate_snapshot None resumed_state) = [500]
   \<and> map outcome (actionsOf (cycle_env {600} t) [] duplicate_snapshot None resumed_state) = [Killed]"
  by (simp add: resumed_state_eq reaper_eval scenario_defs)

text \<open>
  What does hold, between two consecutive calls of \<open>evaluate\<close> that both run with the
  Reaper enabled (the configuration may be patched in between): every action of the
  second call, whatever its outcome, targets a PID that \<open>currentCandidates\<close> held under
  the action's rule in both calls; a PID flagged under rule \<open>r\<close> in the first call and not
  under \<open>r\<close> in the second gets no action in the second call and is not held under \<open>r\<close>
  in the candidate map afterwards; and a PID that no rule flags in the second call is
  absent from the map afterwards.
\<close>

lemma two_cycle_confirmation:
  assumes "enabled (config s0)" and "enabled cfg2"
  shows "(\<forall>a \<in> set (actionsOf env2 procs2 snap2 mb2
                      ((stateAfter env1 procs1 snap1 mb1 s0)\<lparr>config := cfg2\<rparr>)).
            flagged env1 (config s0) procs1 snap1 mb1 (targetPid a) (rule a)
          \<and> flagged env2 cfg2 procs2 snap2 mb2 (targetPid a) (rule a))
       \<and> (\<forall>p r. flagged env1 (config s0) procs1 snap1 mb1 p r
                 \<and> \<not> flagged env2 cfg2 procs2 snap2 mb2 p r \<longrightarrow>
            p \<notin> targetPid ` set (actionsOf env2 procs2 snap2 mb2
                                   ((stateAfter env1 procs1 snap1 mb1 s0)\<lparr>config := cfg2\<rparr>))
          \<and> \<not> heldUnder (candidates (stateAfter env2 procs2 snap2 mb2
                                   ((stateAfter env1 procs1 snap1 mb1 s0)\<lparr>config := cfg2\<rparr>))) p r)
       \<and> (\<forall>p. (\<forall>r. \<not> flagged env2 cfg2 procs2 snap2 mb2 p r) \<longrightarrow>
            map_of (candidates (stateAfter env2 procs2 snap2 mb2
                                   ((stateAfter env1 procs1 snap1 mb1 s0)\<lparr>config := cfg2\<rparr>))) p = None)"
proof -
  define s1 where "s1 = (stateAfter env1 procs1 snap1 mb1 s0)\<lparr>config := cfg2\<rparr>"
  have cfg: "config s1 = cfg2" and cands: "candidates s1 = candidates (stateAfter env1 procs1 snap1 mb1 s0)"
    by (simp_all add: s1_def)
  have en2: "enabled (config s1)" using assms(2) cfg by simp
  have both: "flagged env1 (config s0) procs1 snap1 mb1 (targetPid a) (rule a)
          \<and> flagged env2 cfg2 procs2 snap2 mb2 (targetPid a) (rule a)"
    if "a \<in> set (actionsOf env2 procs2 snap2 mb2 s1)" for a
  proof -
    from action_flagged_held[OF that]
    have f2: "flagged env2 cfg2 procs2 snap2 mb2 (targetPid a) (rule a)"
      and h: "heldUnder (candidates (stateAfter env1 procs1 snap1 mb1 s0)) (targetPid a) (rule a)"
      by (simp_all add: cfg cands)
    from held_after_flagged[OF assms(1) h] f2 show ?thesis by simp
  qed
  have dropped: "p \<notin> targetPid ` set (actionsOf env2 procs2 snap2 mb2 s1)
          \<and> \<not> heldUnder (candidates (stateAfter env2 procs2 snap2 mb2 s1)) p r"
    if f1: "flagged env1 (config s0) procs1 snap1 mb1 p r"
      and nf2: "\<not> flagged env2 cfg2 procs2 snap2 mb2 p r" for p r
  proof
    show "p \<notin> targetPid ` set (actionsOf env2 procs2 snap2 mb2 s1)"
    proof
      assume "p \<in> targetPid ` set (actionsOf env2 procs2 snap2 mb2 s1)"
      then obtain a where a: "a \<in> set (actionsOf env2 procs2 snap2 mb2 s1)" "targetPid a = p"
        by auto
      from both[OF a(1)] a(2) have "flagged env1 (config s0) procs1 snap1 mb1 p (rule a)"
        and f2: "flagged env2 cfg2 procs2 snap2 mb2 p (rule a)" by simp_all
      with f1 have "r = rule a" unfolding flagged_def by (intro flaggedUnder_functional)
      with f2 nf2 show False by simp
    qed
    show "\<not> heldUnder (candidates (stateAfter env2 procs2 snap2 mb2 s1)) p r"
      using held_after_flagged[OF en2, of env2 procs2 snap2 mb2 p r] nf2 cfg by auto
  qed
  have absent: "map_of (candidates (stateAfter env2 procs2 snap2 mb2 s1)) p = None"
    if "\<forall>r. \<not> flagged env2 cfg2 procs2 snap2 mb2 p r" for p
    using not_flagged_absent[OF en2, of env2 procs2 snap2 mb2 p] that cfg by simp
  show ?thesis
    unfolding s1_def[symmetric] using both dropped absent by blast
qed

text \<open>
  An instance: in the duplicate-model scenario PID 500 is flagged in two enabled calls
  in a row, and the second call acts on it under that rule.
\<close>

lemma two_cycle_confirmation_instance:
  "enabled (config initial_reaper) \<and> enabled DEFAULT_REAPER_CONFIG
   \<and> map targetPid (actionsOf (cycle_env {600} 11000) [] duplicate_snapshot None
        ((stateAfter (cycle_env {600} 1000) [] duplicate_snapshot None initial_reaper)
           \<lparr>config := DEFAULT_REAPER_CONFIG\<rparr>)) = [500]
   \<and> map rule (actionsOf (cycle_env {600} 11000) [] duplicate_snapshot None
        ((stateAfter (cycle_env {600} 1000) [] duplicate_snapshot None initial_reaper)
           \<lparr>config := DEFAULT_REAPER_CONFIG\<rparr>)) = [DuplicateModel]
   \<and> flagged (cycle_env {600} 1000) (config initial_reaper) [] duplicate_snapshot None
        500 DuplicateModel
   \<and> flagged (cycle_env {600} 11000) DEFAULT_REAPER_CONFIG [] duplicate_snapshot None
        500 DuplicateModel"
proof -
  have h1: "enabled (config initial_reaper)" and h2: "enabled DEFAULT_REAPER_CONFIG"
    by (simp_all add: initial_reaper_def DEFAULT_REAPER_CONFIG_def)
  let ?acts = "actionsOf (cycle_env {600} 11000) [] duplicate_snapshot None
        ((stateAfter (cycle_env {600} 1000) [] duplicate_snapshot None initial_reaper)
           \<lparr>config := DEFAULT_REAPER_CONFIG\<rparr>)"
  have a: "?acts = [\<lparr>timestamp = 11000, targetPid = 500, rule = DuplicateModel,
                     reason = duplicate_model_reason 500 5000 2, outcome = Killed,
                     freedMemoryMb = None\<rparr>]"
    using seen_state_eq
    by (simp add: seen_state_def reaper_eval scenario_defs numeral_2_eq_2)
  have "\<forall>a \<in> set ?acts.
            flagged (cycle_env {600} 1000) (config initial_reaper) [] duplicate_snapshot None
              (targetPid a) (rule a)
          \<and> flagged (cycle_env {600} 11000) DEFAULT_REAPER_CONFIG [] duplicate_snapshot None
              (targetPid a) (rule a)"
    using two_cycle_confirmation[OF h1 h2] by blast
  then show ?thesis using h1 h2 a by simp
qed




text \<open>
  Claim C6 fails as stated. Four calls on the unchanged duplicate-model snapshot pair,
  with PID 500 alive throughout: the second call kills PID 500, the third registers it
  again, and the fourth kills it a second time. When PID 500 is dead after the first
  kill, the fourth call still emits an action for it, \<open>skipped-safety\<close>. In dry-run mode
  every call after the first emits a \<open>dry-run\<close> action for it.
\<close>

theorem repeated_kill_on_unchanged_snapshots:
  "map targetPid (fst (run_cycles
      [same_cycle 1000, same_cycle 11000, same_cycle 21000, same_cycle 31000] initial_reaper))
     = [500, 500]
   \<and> map outcome (fst (run_cycles
      [same_cycle 1000, same_cycle 11000, same_cycle 21000, same_cycle 31000] initial_reaper))
     = [Killed, Killed]
   \<and> map timestamp (fst (run_cycles
      [same_cycle 1000, same_cycle 11000, same_cycle 21000, same_cycle 31000] initial_reaper))
     = [11000, 31000]
   \<and> map targetPid (fst (run_cycles
      [same_cycle 1000, same_cycle 11000, gone_cycle 21000, gone_cycle 31000] initial_reaper))
     = [500, 500]
   \<and> map outcome (fst (run_cycles
      [same_cycle 1000, same_cycle 11000, gone_cycle 21000, gone_cycle 31000] initial_reaper))
     = [Killed, SkippedSafety]
   \<and> map targetPid (fst (run_cycles
      [same_cycle 11000, same_cycle 21000, same_cycle 31000] rehearsal_state))
     = [500, 500, 500]
   \<and> map outcome (fst (run_cycles
      [same_cycle 11000, same_cycle 21000, same_cycle 31000] rehearsal_state))
     = [DryRun, DryRun, DryRun]"
  by (simp add: rehearsal_state_eq reaper_eval scenario_defs)

text \<open>
  Claim C6, as amended. A call of \<open>evaluate\<close> emits no action for a PID that no enabled
  rule flags. If a call emitted an action for \<open>p\<close> with outcome \<open>killed\<close> or \<open>failed\<close>, the
  call that follows it (on any snapshots, under any configuration) emits no action for
  \<open>p\<close>: the kill attempt deleted the candidate entry, so \<open>p\<close> is at most registered
  again. Nothing else is remembered about a PID that was acted upon.
\<close>

theorem no_action_without_flag_or_after_attempt:
  "((\<forall>r. \<not> flagged env (config s) procs snap mb p r) \<longrightarrow>
      p \<notin> targetPid ` set (actionsOf env procs snap mb s))
   \<and> ((\<exists>a \<in> set (actionsOf env procs snap mb s).
          targetPid a = p \<and> (outcome a = Killed \<or> outcome a = Failed)) \<longrightarrow>
      p \<notin> targetPid ` set (actionsOf env' procs' snap' mb'
                              ((stateAfter env procs snap mb s)\<lparr>config := cfg'\<rparr>)))"
proof (intro conjI impI)
  assume nf: "\<forall>r. \<not> flagged env (config s) procs snap mb p r"
  show "p \<notin> targetPid ` set (actionsOf env procs snap mb s)"
  proof
    assume "p \<in> targetPid ` set (actionsOf env procs snap mb s)"
    then obtain a where "a \<in> set (actionsOf env procs snap mb s)" "targetPid a = p" by auto
    with action_flagged_held[of a env procs snap mb s] nf show False by auto
  qed
next
  assume "\<exists>a \<in> set (actionsOf env procs snap mb s).
          targetPid a = p \<and> (outcome a = Killed \<or> outcome a = Failed)"
  then obtain a where a: "a \<in> set (actionsOf env procs snap mb s)" "targetPid a = p"
      "outcome a = Killed \<or> outcome a = Failed" by auto
  from attempt_absent[OF a(1,3)] a(2)
  have gone: "map_of (candidates (stateAfter env procs snap mb s)) p = None" by simp
  show "p \<notin> targetPid ` set (actionsOf env' procs' snap' mb'
                              ((stateAfter env procs snap mb s)\<lparr>config := cfg'\<rparr>))"
  proof
    assume "p \<in> targetPid ` set (actionsOf env' procs' snap' mb'
                              ((stateAfter env procs snap mb s)\<lparr>config := cfg'\<rparr>))"
    then obtain b where "b \<in> set (actionsOf env' procs' snap' mb'
                              ((stateAfter env procs snap mb s)\<lparr>config := cfg'\<rparr>))" "targetPid b = p"
      by auto
    with action_flagged_held[of b env' procs' snap' mb'
            "(stateAfter env procs snap mb s)\<lparr>config := cfg'\<rparr>"] gone
    show False by (simp add: heldUnder_def)
  qed
qed

text \<open>
  Witness for C6: after the call that killed PID 500 the next call emits no action for
  it, and the managed PID 600, which no rule flags, never gets one.
\<close>

theorem no_action_without_flag_or_after_attempt_witness:
  "map targetPid (actionsOf (cycle_env {600} 11000) [] duplicate_snapshot None seen_state) = [500]
   \<and> map outcome (actionsOf (cycle_env {600} 11000) [] duplicate_snapshot None seen_state) = [Killed]
   \<and> 500 \<notin> targetPid ` set (actionsOf (cycle_env {600} 21000) [] duplicate_snapshot None
        ((stateAfter (cycle_env {600} 11000) [] duplicate_snapshot None seen_state)
           \<lparr>config := DEFAULT_REAPER_CONFIG\<rparr>))
   \<and> 600 \<notin> targetPid ` set (actionsOf (cycle_env {600} 11000) [] duplicate_snapshot None seen_state)"
proof -
  let ?acts = "actionsOf (cycle_env {600} 11000) [] duplicate_snapshot None seen_state"
  have a: "?acts = [\<lparr>timestamp = 11000, targetPid = 500, rule = DuplicateModel,
                     reason = duplicate_model_reason 500 5000 2, outcome = Killed,
                     freedMemoryMb = None\<rparr>]"
    by (simp add: seen_state_eq reaper_eval scenario_defs numeral_2_eq_2)
  then have ex: "\<exists>a \<in> set ?acts. targetPid a = 500 \<and> (outcome a = Killed \<or> outcome a = Failed)"
    by simp
  have nf: "\<forall>r. \<not> flagged (cycle_env {600} 11000) (config seen_state) [] duplicate_snapshot None 600 r"
    by (simp add: seen_state_eq flagged_def flaggedUnder_def reaper_eval scenario_defs)
  from no_action_without_flag_or_after_attempt[of "cycle_env {600} 11000" seen_state "[]"
         duplicate_snapshot None 500 "cycle_env {600} 21000" "[]" duplicate_snapshot None
         DEFAULT_REAPER_CONFIG] ex
  have 1: "500 \<notin> targetPid ` set (actionsOf (cycle_env {600} 21000) [] duplicate_snapshot None
        ((stateAfter (cycle_env {600} 11000) [] duplicate_snapshot None seen_state)
           \<lparr>config := DEFAULT_REAPER_CONFIG\<rparr>))"
    by blast
  from no_action_without_flag_or_after_attempt[of "cycle_env {600} 11000" seen_state "[]"
         duplicate_snapshot None 600] nf
  have 2: "600 \<notin> targetPid ` set ?acts" by blast
  show ?thesis using a 1 2 by simp
qed

text \<open>
  Claim C10. If \<open>enabled\<close> is false, \<open>evaluate\<close> returns the empty action list and
  the module state as it was: the candidate map and the action log are not touched; no
  termination signal is sent either.
\<close>

theorem evaluate_disabled:
  "\<not> enabled (config s) \<Longrightarrow> evaluate env procs snap mb s = ([], s, [])"
  by (simp add: evaluate_def)

text \<open>
  Witness for C10: a disabled call on a state that holds a candidate.
\<close>

theorem evaluate_disabled_witness:
  "\<not> enabled (config paused_state)
   \<and> evaluate (cycle_env {600} 11000) [] duplicate_snapshot None paused_state
       = ([], paused_state, [])
   \<and> map fst (candidates paused_state) = [500]"
  using evaluate_disabled[of paused_state "cycle_env {600} 11000" "[]" duplicate_snapshot None]
  by (simp add: paused_state_eq DEFAULT_REAPER_CONFIG_def)

subsection \<open>The circuit breaker\<close>

text \<open>
  Within one call the breaker does what it is meant to do: the kills that
  \<open>getKillsInWindow\<close> counts in the log, plus the kills of the call, do not exceed the
  maximum (unless the count was above it to begin with).
\<close>

lemma executeKill_killed_below:
  "outcome (fst (executeKill env cfg cands p r rsn n)) = Killed \<Longrightarrow> n < maxKillsPerWindow cfg"
  by (simp add: executeKill_def Let_def split: if_splits)

lemma confirm_kill_bound:
  assumes "k + int (length (killedActions acts)) \<le> max k (maxKillsPerWindow cfg)"
  shows "k + int (length (killedActions (fst (snd (confirm env cfg k cc (cands, acts, sigs))))))
           \<le> max k (maxKillsPerWindow cfg)"
  using assms
proof (induction cc arbitrary: cands acts sigs)
  case Nil
  then show ?case by simp
next
  case (Cons x cc)
  obtain p info where x: "x = (p, info)" by (cases x)
  show ?case
  proof (cases "confirmed cands (p, info)")
    case False
    show ?thesis unfolding x confirm_register[OF False] by (rule Cons.IH[OF Cons.prems])
  next
    case True
    define n where "n = k + int (length (filter (\<lambda>a. outcome a = Killed) acts))"
    define ek where "ek = executeKill env cfg cands p (c_rule info) (c_reason info) n"
    have "k + int (length (killedActions (acts @ [fst ek]))) \<le> max k (maxKillsPerWindow cfg)"
    proof (cases "outcome (fst ek) = Killed")
      case True
      then have "n < maxKillsPerWindow cfg"
        unfolding ek_def by (rule executeKill_killed_below)
      then show ?thesis using True by (simp add: killedActions_def n_def)
    next
      case False
      then show ?thesis using Cons.prems by (simp add: killedActions_def)
    qed
    then show ?thesis
      unfolding x confirm_execute[OF True] n_def[symmetric] ek_def[symmetric]
      by (rule Cons.IH)
  qed
qed

lemma kills_within_call:
  "getKillsInWindow (dateNow env) (config s) (actionLog s)
     + int (length (killedActions (actionsOf env procs snap mb s)))
   \<le> max (getKillsInWindow (dateNow env) (config s) (actionLog s)) (maxKillsPerWindow (config s))"
proof (cases "enabled (config s)")
  case False
  then show ?thesis by (simp add: actionsOf_def evaluate_off killedActions_def)
next
  case True
  show ?thesis
    unfolding actionsOf_def evaluate_enabled[OF True] fst_conv
    by (rule confirm_kill_bound) (simp add: killedActions_def)
qed

text \<open>
  The run of \<open>breaker_scenario\<close>: the actions with outcome \<open>killed\<close>, with their
  timestamps.
\<close>

lemma breaker_run:
  "map (\<lambda>a. (targetPid a, timestamp a))
     (killedActions (fst (run_cycles breaker_scenario initial_reaper)))
     = [(701, 1010000), (702, 1010000), (703, 1010000),
        (704, 1260000), (705, 1260000), (706, 1260000)]"
  by (simp add: breaker_scenario_def killedActions_def reaper_eval scenario_defs)

text \<open>
  Claim C4 does not hold of the code. Under the default configuration (at most 3 kills
  per window of 300000 ms) seven unmanaged processes are confirmed in cycle 1: three are
  killed and four skipped. The four are confirmed and skipped again in each of the next
  24 cycles, which puts 100 entries behind the three kills in the action log; the log
  keeps its last 100 entries, so the kills are evicted, \<open>getKillsInWindow\<close> counts none,
  and cycle 26 kills three more processes 250000 ms after the first three.
\<close>

theorem breaker_forgets_kills:
  "maxKillsPerWindow (config initial_reaper) = 3
   \<and> windowMs (config initial_reaper) = 300000
   \<and> map targetPid (killedActions (fst (run_cycles breaker_scenario initial_reaper)))
       = [701, 702, 703, 704, 705, 706]
   \<and> map timestamp (killedActions (fst (run_cycles breaker_scenario initial_reaper)))
       = [1010000, 1010000, 1010000, 1260000, 1260000, 1260000]"
proof -
  have "map fst (map (\<lambda>a. (targetPid a, timestamp a))
          (killedActions (fst (run_cycles breaker_scenario initial_reaper))))
          = [701, 702, 703, 704, 705, 706]"
    and "map snd (map (\<lambda>a. (targetPid a, timestamp a))
          (killedActions (fst (run_cycles breaker_scenario initial_reaper))))
          = [1010000, 1010000, 1010000, 1260000, 1260000, 1260000]"
    by (simp_all only: breaker_run list.map fst_conv snd_conv)
  then show ?thesis
    by (simp add: comp_def initial_reaper_def DEFAULT_REAPER_CONFIG_def)
qed

section \<open>Properties of the Process Tracker\<close>

text \<open>The equations that evaluate a scan on a concrete input.\<close>

lemmas tracker_eval =
  scanProcesses_def classifyRole_def determineHealth_def staleCheck_def cpuDelta_def
  math_round_def or_else_def to_lower_char_def Let_def

lemmas tracker_scenario = initial_tracker_def orphan_row_def reused_row_def

text \<open>
  With an empty counter map \<open>determineHealth\<close> answers \<open>healthy\<close> and leaves the map empty;
  so every scan that starts from an empty counter map reports only \<open>healthy\<close> processes
  and ends with an empty counter map.
\<close>

lemma staleCheck_healthy:
  "sc (raw_pid raw) = None \<Longrightarrow> staleCheck raw rl cpu g sc = (Healthy, sc)"
  by (auto simp: staleCheck_def Let_def or_else_def fun_upd_idem_iff)

lemma staleCheck_healthy_one:
  "sc (raw_pid raw) = None \<Longrightarrow>
     staleCheck raw rl cpu g (sc(raw_pid raw \<mapsto> 1)) = (Healthy, sc)"
  by (auto simp: staleCheck_def Let_def or_else_def fun_upd_idem_iff)

lemma determineHealth_healthy:
  "sc (raw_pid raw) = None \<Longrightarrow> determineHealth managed alive raw rl cpu g sc = (Healthy, sc)"
  by (simp add: determineHealth_def Let_def or_else_def staleCheck_healthy staleCheck_healthy_one)

lemma scanLoop_healthy:
  assumes "\<forall>p \<in> set result. status p = Healthy"
  shows "(\<forall>p \<in> set (snd (snd (scanLoop managed alive now gm raws (lastCpu, Map.empty, result)))).
            status p = Healthy)
       \<and> fst (snd (scanLoop managed alive now gm raws (lastCpu, Map.empty, result))) = Map.empty"
  using assms
proof (induction raws arbitrary: lastCpu result)
  case Nil
  then show ?case by simp
next
  case (Cons raw raws)
  show ?case
    by (simp add: Let_def determineHealth_healthy) (rule Cons.IH, use Cons.prems in simp)
qed

lemma scan_always_healthy:
  "staleCycles t = Map.empty \<Longrightarrow>
     (\<forall>p \<in> set (fst (scanProcesses raws now gm t)). status p = Healthy)
     \<and> staleCycles (snd (scanProcesses raws now gm t)) = Map.empty"
  using scanLoop_healthy[of "[]" "managedPids t" "set (map raw_pid raws)" now gm raws "lastCpuSnapshot t"]
  by (auto simp: scanProcesses_def Let_def split: prod.splits)

text \<open>
  Claim C3 does not hold of the code. PID 700 is unmanaged and its parent, PID 650, is
  in none of three consecutive scans; its status is \<open>healthy\<close> in each of them, also in
  the second and the third. \<open>determineHealth\<close> sets the counter to 1 in its first \<open>if\<close>,
  falls through, and deletes the counter before it answers \<open>healthy\<close>, so the counter
  never reaches 2.
\<close>

theorem orphan_stays_healthy:
  "raw_parentPid orphan_row \<notin> set (map raw_pid [orphan_row])
   \<and> raw_pid orphan_row \<notin> managedPids initial_tracker
   \<and> map status (fst (scanProcesses [orphan_row] 5000 Map.empty initial_tracker)) = [Healthy]
   \<and> map status (fst (scanProcesses [orphan_row] 10000 Map.empty
        (snd (scanProcesses [orphan_row] 5000 Map.empty initial_tracker)))) = [Healthy]
   \<and> map status (fst (scanProcesses [orphan_row] 15000 Map.empty
        (snd (scanProcesses [orphan_row] 10000 Map.empty
          (snd (scanProcesses [orphan_row] 5000 Map.empty initial_tracker)))))) = [Healthy]"
  by (simp add: tracker_eval tracker_scenario)

text \<open>
  What does hold of the CPU delta: the upper bound, and the lower bound when the CPU
  seconds did not decrease.
\<close>

lemma cpuDelta_le_100: "cpuDelta prev cpuSecs now \<le> 100"
  by (simp add: cpuDelta_def Let_def split: option.splits)

lemma cpuDelta_nonneg:
  "prev = Some pv \<Longrightarrow> cs_cpuSeconds pv \<le> cpuSecs \<Longrightarrow> 0 \<le> cpuDelta prev cpuSecs now"
  by (simp add: cpuDelta_def Let_def math_round_def)

text \<open>
  Claim C7 does not hold of the code. PID 700 had 12.5 CPU seconds in the scan at 5000
  ms; in the scan at 10000 ms the PID belongs to a younger process with 0.25 CPU
  seconds. The reported \<open>cpuPercent\<close> is \<open>-245\<close>: the delta is capped at 100 by
  \<open>Math.min\<close> and has no lower bound.
\<close>

theorem cpu_percent_negative:
  "map pid (fst (scanProcesses [reused_row] 10000 Map.empty
        (snd (scanProcesses [orphan_row] 5000 Map.empty initial_tracker)))) = [700]
   \<and> map cpuPercent (fst (scanProcesses [reused_row] 10000 Map.empty
        (snd (scanProcesses [orphan_row] 5000 Map.empty initial_tracker)))) = [- 245]"
  by (simp add: tracker_eval tracker_scenario)

section \<open>Properties of the CUDA Monitor and the Fence\<close>

text \<open>Only the last of the four groups of alerts carries \<open>vram-leak\<close> alerts.\<close>

lemma overBudget_no_leak: "a \<in> set (overBudgetAlerts budget g now) \<Longrightarrow> a_type a = OverBudget"
  by (simp add: overBudgetAlerts_def split: if_splits)

lemma thermal_no_leak: "a \<in> set (thermalAlerts g now) \<Longrightarrow> a_type a = Thermal"
  by (simp add: thermalAlerts_def split: if_splits)

lemma unmanaged_no_leak: "a \<in> set (unmanagedAlerts procs now) \<Longrightarrow> a_type a = UnmanagedProcess"
  by (auto simp: unmanagedAlerts_def)

lemma vramLeakAlerts_cases:
  "vramLeakAlerts prevSnap g procs now =
     (case (case prevSnap of None \<Rightarrow> None
                | Some ps \<Rightarrow> (case gpu ps of None \<Rightarrow> None | Some pg \<Rightarrow> Some (memoryUsedMb pg))) of
        None \<Rightarrow> []
      | Some prevUsed \<Rightarrow>
          if memoryUsedMb g - prevUsed > 500 \<and> filter isManaged procs = [] then
            [\<lparr>a_type = VramLeak, severity = Warning,
              message = ''VRAM grew by '' @ show_int (memoryUsedMb g - prevUsed)
                @ '' MB with no managed processes on GPU. Possible leak.'',
              a_pid = None, a_timestamp = now\<rparr>]
          else [])"
  by (simp add: vramLeakAlerts_def Let_def split: option.splits)

lemma leak_alerts_of_generate:
  "filter (\<lambda>a. a_type a = VramLeak) (generateAlerts budget prevSnap (Some g) procs now)
     = vramLeakAlerts prevSnap g procs now"
proof -
  have 1: "filter (\<lambda>a. a_type a = VramLeak) (overBudgetAlerts budget g now) = []"
    by (auto simp: filter_empty_conv dest: overBudget_no_leak)
  have 2: "filter (\<lambda>a. a_type a = VramLeak) (thermalAlerts g now) = []"
    by (auto simp: filter_empty_conv dest: thermal_no_leak)
  have 3: "filter (\<lambda>a. a_type a = VramLeak) (unmanagedAlerts procs now) = []"
    by (auto simp: filter_empty_conv dest: unmanaged_no_leak)
  have 4: "filter (\<lambda>a. a_type a = VramLeak) (vramLeakAlerts prevSnap g procs now)
            = vramLeakAlerts prevSnap g procs now"
    by (simp add: vramLeakAlerts_cases split: option.splits)
  show ?thesis by (simp add: generateAlerts_def 1 2 3 4)
qed

text \<open>
  Claim C8. The snapshot of a poll carries a \<open>vram-leak\<close> alert exactly when the poll
  has GPU data, the previous snapshot has GPU data, the used memory grew by more than
  500 MB between the two, and no process of the snapshot is managed; a \<open>vram-leak\<close>
  alert has severity \<open>warning\<close>.
\<close>

theorem vram_leak_alert:
  "(\<exists>a \<in> set (alerts (fst (pollCuda now managed g_opt rows st))). a_type a = VramLeak)
     = (\<exists>g prevUsed. g_opt = Some g \<and> previousUsedMb st = Some prevUsed
          \<and> memoryUsedMb g - prevUsed > 500
          \<and> filter isManaged (processes (fst (pollCuda now managed g_opt rows st))) = [])
   \<and> (\<forall>a \<in> set (alerts (fst (pollCuda now managed g_opt rows st))).
         a_type a = VramLeak \<longrightarrow> severity a = Warning)"
proof (cases g_opt)
  case None
  then show ?thesis by (simp add: pollCuda_def Let_def generateAlerts_def)
next
  case (Some g)
  let ?procs = "queryGpuProcesses managed rows"
  let ?al = "generateAlerts (m_vramBudgetMb st) (previousSnapshot st) (Some g) ?procs now"
  have al: "alerts (fst (pollCuda now managed g_opt rows st)) = ?al"
    and pr: "processes (fst (pollCuda now managed g_opt rows st)) = ?procs"
    by (simp_all add: pollCuda_def Let_def Some)
  have mem: "(a \<in> set ?al \<and> a_type a = VramLeak)
               = (a \<in> set (vramLeakAlerts (previousSnapshot st) g ?procs now))" for a
  proof -
    have "set (filter (\<lambda>a. a_type a = VramLeak) ?al)
            = set (vramLeakAlerts (previousSnapshot st) g ?procs now)"
      by (simp only: leak_alerts_of_generate)
    then show ?thesis by auto
  qed
  have "(\<exists>a \<in> set ?al. a_type a = VramLeak)
              = (\<exists>a. a \<in> set (vramLeakAlerts (previousSnapshot st) g ?procs now))"
    using mem by blast
  also have "\<dots> = (vramLeakAlerts (previousSnapshot st) g ?procs now \<noteq> [])"
    by (cases "vramLeakAlerts (previousSnapshot st) g ?procs now") auto
  finally have ex: "(\<exists>a \<in> set ?al. a_type a = VramLeak)
              = (vramLeakAlerts (previousSnapshot st) g ?procs now \<noteq> [])" .
  have c: "(vramLeakAlerts (previousSnapshot st) g ?procs now \<noteq> [])
             = (\<exists>prevUsed. previousUsedMb st = Some prevUsed
                  \<and> memoryUsedMb g - prevUsed > 500 \<and> filter isManaged ?procs = [])"
    by (auto simp: vramLeakAlerts_cases previousUsedMb_def split: option.splits)
  have w: "\<forall>a \<in> set ?al. a_type a = VramLeak \<longrightarrow> severity a = Warning"
  proof (intro ballI impI)
    fix a assume "a \<in> set ?al" "a_type a = VramLeak"
    then have "a \<in> set (vramLeakAlerts (previousSnapshot st) g ?procs now)" using mem by blast
    then show "severity a = Warning"
      by (auto simp: vramLeakAlerts_cases split: option.splits if_splits)
  qed
  show ?thesis unfolding al pr using ex c w Some by simp
qed

text \<open>
  Witness for C8: the used memory goes from 4000 MB to 4800 MB between two polls. With
  the unmanaged PID 500 as the only GPU process the alert is emitted, as a warning; with
  PID 500 in the registry no alert at all is emitted.
\<close>

theorem vram_leak_alert_witness:
  "previousUsedMb polled_cuda = Some 4000
   \<and> (\<exists>a \<in> set (alerts (fst (pollCuda 11000 {} (Some (gpu_info 4800))
                                [(500, ''python.exe'', 900)] polled_cuda))). a_type a = VramLeak)
   \<and> map a_type (alerts (fst (pollCuda 11000 {} (Some (gpu_info 4800))
                                [(500, ''python.exe'', 900)] polled_cuda)))
       = [UnmanagedProcess, VramLeak]
   \<and> map severity (alerts (fst (pollCuda 11000 {} (Some (gpu_info 4800))
                                [(500, ''python.exe'', 900)] polled_cuda)))
       = [Warning, Warning]
   \<and> map a_type (alerts (fst (pollCuda 11000 {500} (Some (gpu_info 4800))
                                [(500, ''python.exe'', 900)] polled_cuda)))
       = []"
proof -
  have p: "previousUsedMb polled_cuda = Some 4000"
    by (simp add: polled_cuda_def previousUsedMb_def pollCuda_def Let_def gpu_info_def)
  have f: "filter isManaged (processes (fst (pollCuda 11000 {} (Some (gpu_info 4800))
                                [(500, ''python.exe'', 900)] polled_cuda))) = []"
    by (simp add: pollCuda_def Let_def queryGpuProcesses_def isManagedPid_def)
  have "\<exists>g prevUsed. Some (gpu_info 4800) = Some g \<and> previousUsedMb polled_cuda = Some prevUsed
          \<and> memoryUsedMb g - prevUsed > 500
          \<and> filter isManaged (processes (fst (pollCuda 11000 {} (Some (gpu_info 4800))
                                [(500, ''python.exe'', 900)] polled_cuda))) = []"
    using p f by (simp add: gpu_info_def)
  then have e: "\<exists>a \<in> set (alerts (fst (pollCuda 11000 {} (Some (gpu_info 4800))
                                [(500, ''python.exe'', 900)] polled_cuda))). a_type a = VramLeak"
    using vram_leak_alert[of 11000 "{}" "Some (gpu_info 4800)" "[(500, ''python.exe'', 900)]"
            polled_cuda] by blast
  have c: "map a_type (alerts (fst (pollCuda 11000 {} (Some (gpu_info 4800))
                                [(500, ''python.exe'', 900)] polled_cuda)))
       = [UnmanagedProcess, VramLeak]
   \<and> map severity (alerts (fst (pollCuda 11000 {} (Some (gpu_info 4800))
                                [(500, ''python.exe'', 900)] polled_cuda)))
       = [Warning, Warning]
   \<and> map a_type (alerts (fst (pollCuda 11000 {500} (Some (gpu_info 4800))
                                [(500, ''python.exe'', 900)] polled_cuda)))
       = []"
    by (simp add: polled_cuda_def initial_cuda_def pollCuda_def Let_def queryGpuProcesses_def
          isManagedPid_def generateAlerts_def overBudgetAlerts_def thermalAlerts_def
          unmanagedAlerts_def vramLeakAlerts_def gpu_info_def)
  show ?thesis using p e c by blast
qed

text \<open>
  Claim C9. \<open>canLaunchModel\<close> allows the launch exactly when fewer GPU processes than
  \<open>maxConcurrentModels\<close> hold more than 4000 MB and the lock is not held; it gives a
  reason, which is not the empty string, exactly when it does not allow the launch.
\<close>

theorem canLaunchModel_decision:
  "allowed (canLaunchModel f snap)
     = (int (length (filter (\<lambda>p. usedMemoryMb p > 4000) (processes snap)))
          < maxConcurrentModels (f_config f) \<and> \<not> locked f)
   \<and> (l_reason (canLaunchModel f snap) = None) = allowed (canLaunchModel f snap)
   \<and> l_reason (canLaunchModel f snap) \<noteq> Some []"
  by (auto simp: canLaunchModel_def Let_def)

text \<open>
  Witness for C9: with \<open>maxConcurrentModels = 1\<close> and PID 600 holding 6000 MB the launch
  is refused with a reason; with no GPU process it is allowed, unless the lock is held.
\<close>

theorem canLaunchModel_decision_witness:
  "maxConcurrentModels (f_config initial_fence) = 1
   \<and> length (filter (\<lambda>p. usedMemoryMb p > 4000) (processes lone_snapshot)) = 1
   \<and> \<not> allowed (canLaunchModel initial_fence lone_snapshot)
   \<and> l_reason (canLaunchModel initial_fence lone_snapshot) \<noteq> None
   \<and> allowed (canLaunchModel initial_fence (cuda_snapshot 0 []))
   \<and> \<not> allowed (canLaunchModel (snd (acquireLock initial_fence)) (cuda_snapshot 0 []))"
  using canLaunchModel_decision[of initial_fence lone_snapshot]
    canLaunchModel_decision[of initial_fence "cuda_snapshot 0 []"]
    canLaunchModel_decision[of "snd (acquireLock initial_fence)" "cuda_snapshot 0 []"]
  by (simp add: initial_fence_def DEFAULT_FENCE_CONFIG_def lone_snapshot_def cuda_snapshot_def
        gpu_proc_def acquireLock_def)

end
